theory Spec2Isabelle
  imports Complex_Main "HOL-Library.Multiset" "HOL-Library.Sublist" "HOL-Library.Char_ord"
    "HOL-Library.List_Lexorder" "HOL-Library.Log_Nat"
begin

section \<open>Data model (types.ts)\<close>

text \<open>
  Conventions of the embedding.

  \<^item> A JavaScript \<open>number\<close> that holds money is a \<^typ>\<open>rat\<close>: sums, differences, quotients and
    comparisons are exact. The rounding of IEEE doubles is outside the model; every concrete
    input used below is a dyadic rational on which double arithmetic is exact as well.
  \<^item> A JavaScript string is a \<^typ>\<open>string\<close>. Labels that are not ASCII in the source are written
    as their UTF-8 bytes; only equality is ever used on them. \<open>substring\<close>, \<open>startsWith\<close>
    and \<open>trim\<close> act on the characters of the list, which is what JavaScript does on ASCII text.
  \<^item> \<open>Map\<close> and plain objects used as dictionaries are association lists in insertion order
    with one entry per key, as \<open>Map.prototype.forEach\<close>, \<open>Array.from(map.entries())\<close> and
    \<open>Object.entries\<close> enumerate them. Keys of a plain object that look like array indices or
    that name a property of \<open>Object.prototype\<close> (\<open>constructor\<close>, \<open>toString\<close>, ...) are outside
    the model: they are enumerated first, respectively do not read as absent.
  \<^item> \<open>Array.prototype.sort\<close> is stable; a comparator \<open>(a, b) => key b - key a\<close> is a stable
    sort by descending key.
\<close>

datatype TransactionType = expense | income

record ReceiptItem =
  name :: string
  price :: rat
  quantity :: "nat option"

text \<open>
  The field \<open>type\<close> is only ever tested with \<open>=== 'income'\<close> and \<open>!== 'income'\<close>, so a legacy
  record that lacks it behaves as \<^const>\<open>expense\<close>. The fields \<open>id\<close>, \<open>type\<close> and \<open>note\<close> carry the
  suffix \<open>T\<close> because their plain names are taken.
\<close>

record Transaction =
  idT :: string
  typeT :: TransactionType
  amountAUD :: rat
  amountTWD :: rat
  category :: string
  date :: string
  noteT :: string
  items :: "ReceiptItem list option"
  tax :: "rat option"
  superannuation :: "rat option"

text \<open>
  The string enums \<open>Category\<close> and \<open>IncomeCategory\<close>: member name and value (the label stored in
  \<open>category\<close>).
\<close>

definition Category :: "(string \<times> string) list" where
  "Category = [
    (''RENT'',  \<comment> \<open>U+623F U+79DF U+4F4F U+5BBF\<close>
      [CHR 0xE6, CHR 0x88, CHR 0xBF, CHR 0xE7, CHR 0xA7, CHR 0x9F, CHR 0xE4, CHR 0xBD, CHR 0x8F, CHR 0xE5, CHR 0xAE, CHR 0xBF]),
    (''GROCERIES'',  \<comment> \<open>U+8D85 U+5E02 U+96DC U+8CA8\<close>
      [CHR 0xE8, CHR 0xB6, CHR 0x85, CHR 0xE5, CHR 0xB8, CHR 0x82, CHR 0xE9, CHR 0x9B, CHR 0x9C, CHR 0xE8, CHR 0xB2, CHR 0xA8]),
    (''DINING'',  \<comment> \<open>U+5916 U+98DF U+5496 U+5561\<close>
      [CHR 0xE5, CHR 0xA4, CHR 0x96, CHR 0xE9, CHR 0xA3, CHR 0x9F, CHR 0xE5, CHR 0x92, CHR 0x96, CHR 0xE5, CHR 0x95, CHR 0xA1]),
    (''TRANSPORT'',  \<comment> \<open>U+5927 U+773E U+4EA4 U+901A\<close>
      [CHR 0xE5, CHR 0xA4, CHR 0xA7, CHR 0xE7, CHR 0x9C, CHR 0xBE, CHR 0xE4, CHR 0xBA, CHR 0xA4, CHR 0xE9, CHR 0x80, CHR 0x9A]),
    (''CAR'',  \<comment> \<open>U+990A U+8ECA U+6CB9 U+8CC7\<close>
      [CHR 0xE9, CHR 0xA4, CHR 0x8A, CHR 0xE8, CHR 0xBB, CHR 0x8A, CHR 0xE6, CHR 0xB2, CHR 0xB9, CHR 0xE8, CHR 0xB3, CHR 0x87]),
    (''ELECTRICITY'',  \<comment> \<open>U+96FB U+8CBB\<close>
      [CHR 0xE9, CHR 0x9B, CHR 0xBB, CHR 0xE8, CHR 0xB2, CHR 0xBB]),
    (''WATER'',  \<comment> \<open>U+6C34 U+8CBB\<close>
      [CHR 0xE6, CHR 0xB0, CHR 0xB4, CHR 0xE8, CHR 0xB2, CHR 0xBB]),
    (''GAS'',  \<comment> \<open>U+5929 U+7136 U+6C23\<close>
      [CHR 0xE5, CHR 0xA4, CHR 0xA9, CHR 0xE7, CHR 0x84, CHR 0xB6, CHR 0xE6, CHR 0xB0, CHR 0xA3]),
    (''INTERNET'',  \<comment> \<open>U+5BB6 U+7528 U+7DB2 U+8DEF\<close>
      [CHR 0xE5, CHR 0xAE, CHR 0xB6, CHR 0xE7, CHR 0x94, CHR 0xA8, CHR 0xE7, CHR 0xB6, CHR 0xB2, CHR 0xE8, CHR 0xB7, CHR 0xAF]),
    (''MOBILE'',  \<comment> \<open>U+624B U+6A5F U+901A U+8A0A\<close>
      [CHR 0xE6, CHR 0x89, CHR 0x8B, CHR 0xE6, CHR 0xA9, CHR 0x9F, CHR 0xE9, CHR 0x80, CHR 0x9A, CHR 0xE8, CHR 0xA8, CHR 0x8A]),
    (''SHOPPING'',  \<comment> \<open>U+8CFC U+7269 U+6CBB U+88DD\<close>
      [CHR 0xE8, CHR 0xB3, CHR 0xBC, CHR 0xE7, CHR 0x89, CHR 0xA9, CHR 0xE6, CHR 0xB2, CHR 0xBB, CHR 0xE8, CHR 0xA3, CHR 0x9D]),
    (''ENTERTAINMENT'',  \<comment> \<open>U+5A1B U+6A02 U+8A02 U+95B1\<close>
      [CHR 0xE5, CHR 0xA8, CHR 0x9B, CHR 0xE6, CHR 0xA8, CHR 0x82, CHR 0xE8, CHR 0xA8, CHR 0x82, CHR 0xE9, CHR 0x96, CHR 0xB1]),
    (''HEALTH'',  \<comment> \<open>U+91AB U+7642 U+4FDD U+96AA\<close>
      [CHR 0xE9, CHR 0x86, CHR 0xAB, CHR 0xE7, CHR 0x99, CHR 0x82, CHR 0xE4, CHR 0xBF, CHR 0x9D, CHR 0xE9, CHR 0x9A, CHR 0xAA]),
    (''EDUCATION'',  \<comment> \<open>U+6559 U+80B2 U+7C3D U+8B49\<close>
      [CHR 0xE6, CHR 0x95, CHR 0x99, CHR 0xE8, CHR 0x82, CHR 0xB2, CHR 0xE7, CHR 0xB0, CHR 0xBD, CHR 0xE8, CHR 0xAD, CHR 0x89]),
    (''LOAN'',  \<comment> \<open>U+8CB8 U+6B3E U+9084 U+6B3E\<close>
      [CHR 0xE8, CHR 0xB2, CHR 0xB8, CHR 0xE6, CHR 0xAC, CHR 0xBE, CHR 0xE9, CHR 0x82, CHR 0x84, CHR 0xE6, CHR 0xAC, CHR 0xBE]),
    (''PETS'',  \<comment> \<open>U+5BF5 U+7269 U+6BDB U+5B69\<close>
      [CHR 0xE5, CHR 0xAF, CHR 0xB5, CHR 0xE7, CHR 0x89, CHR 0xA9, CHR 0xE6, CHR 0xAF, CHR 0x9B, CHR 0xE5, CHR 0xAD, CHR 0xA9]),
    (''TRAVEL'',  \<comment> \<open>U+65C5 U+904A U+5EA6 U+5047\<close>
      [CHR 0xE6, CHR 0x97, CHR 0x85, CHR 0xE9, CHR 0x81, CHR 0x8A, CHR 0xE5, CHR 0xBA, CHR 0xA6, CHR 0xE5, CHR 0x81, CHR 0x87]),
    (''OTHER'',  \<comment> \<open>U+5176 U+4ED6 U+96DC U+9805\<close>
      [CHR 0xE5, CHR 0x85, CHR 0xB6, CHR 0xE4, CHR 0xBB, CHR 0x96, CHR 0xE9, CHR 0x9B, CHR 0x9C, CHR 0xE9, CHR 0xA0, CHR 0x85])]"

definition IncomeCategory :: "(string \<times> string) list" where
  "IncomeCategory = [
    (''SALARY_FULL'',  \<comment> \<open>U+6B63 U+8077 U+85AA U+8CC7\<close>
      [CHR 0xE6, CHR 0xAD, CHR 0xA3, CHR 0xE8, CHR 0x81, CHR 0xB7, CHR 0xE8, CHR 0x96, CHR 0xAA, CHR 0xE8, CHR 0xB3, CHR 0x87]),
    (''SALARY_CASUAL'',  \<comment> \<open>U+517C U+8077 U+6253 U+5DE5\<close>
      [CHR 0xE5, CHR 0x85, CHR 0xBC, CHR 0xE8, CHR 0x81, CHR 0xB7, CHR 0xE6, CHR 0x89, CHR 0x93, CHR 0xE5, CHR 0xB7, CHR 0xA5]),
    (''TAX_REFUND'',  \<comment> \<open>U+5E74 U+5EA6 U+9000 U+7A05\<close>
      [CHR 0xE5, CHR 0xB9, CHR 0xB4, CHR 0xE5, CHR 0xBA, CHR 0xA6, CHR 0xE9, CHR 0x80, CHR 0x80, CHR 0xE7, CHR 0xA8, CHR 0x85]),
    (''BONUS'',  \<comment> \<open>U+734E U+91D1 U+7D05 U+5305\<close>
      [CHR 0xE7, CHR 0x8D, CHR 0x8E, CHR 0xE9, CHR 0x87, CHR 0x91, CHR 0xE7, CHR 0xB4, CHR 0x85, CHR 0xE5, CHR 0x8C, CHR 0x85]),
    (''INVESTMENT'',  \<comment> \<open>U+6295 U+8CC7 U+7406 U+8CA1\<close>
      [CHR 0xE6, CHR 0x8A, CHR 0x95, CHR 0xE8, CHR 0xB3, CHR 0x87, CHR 0xE7, CHR 0x90, CHR 0x86, CHR 0xE8, CHR 0xB2, CHR 0xA1]),
    (''SECOND_HAND'',  \<comment> \<open>U+4E8C U+624B U+62CD U+8CE3\<close>
      [CHR 0xE4, CHR 0xBA, CHR 0x8C, CHR 0xE6, CHR 0x89, CHR 0x8B, CHR 0xE6, CHR 0x8B, CHR 0x8D, CHR 0xE8, CHR 0xB3, CHR 0xA3]),
    (''OTHER_INCOME'',  \<comment> \<open>U+5176 U+4ED6 U+6536 U+5165\<close>
      [CHR 0xE5, CHR 0x85, CHR 0xB6, CHR 0xE4, CHR 0xBB, CHR 0x96, CHR 0xE6, CHR 0x94, CHR 0xB6, CHR 0xE5, CHR 0x85, CHR 0xA5])]"


definition enumValue :: "(string \<times> string) list \<Rightarrow> string \<Rightarrow> string" where
  "enumValue e member = (case map_of e member of None \<Rightarrow> [] | Some v \<Rightarrow> v)"

definition CATEGORY_COLORS :: "(string \<times> string) list" where
  "CATEGORY_COLORS = [
    (enumValue Category ''RENT'', ''#6366f1''),
    (enumValue Category ''GROCERIES'', ''#10b981''),
    (enumValue Category ''DINING'', ''#f59e0b''),
    (enumValue Category ''TRANSPORT'', ''#3b82f6''),
    (enumValue Category ''CAR'', ''#ef4444''),
    (enumValue Category ''ELECTRICITY'', ''#eab308''),
    (enumValue Category ''WATER'', ''#06b6d4''),
    (enumValue Category ''GAS'', ''#f97316''),
    (enumValue Category ''INTERNET'', ''#8b5cf6''),
    (enumValue Category ''MOBILE'', ''#d946ef''),
    (enumValue Category ''SHOPPING'', ''#ec4899''),
    (enumValue Category ''ENTERTAINMENT'', ''#a855f7''),
    (enumValue Category ''HEALTH'', ''#14b8a6''),
    (enumValue Category ''EDUCATION'', ''#f59e0b''),
    (enumValue Category ''LOAN'', ''#64748b''),
    (enumValue Category ''PETS'', ''#a16207''),
    (enumValue Category ''TRAVEL'', ''#0ea5e9''),
    (enumValue Category ''OTHER'', ''#94a3b8''),
    (enumValue IncomeCategory ''SALARY_FULL'', ''#15803d''),
    (enumValue IncomeCategory ''SALARY_CASUAL'', ''#84cc16''),
    (enumValue IncomeCategory ''TAX_REFUND'', ''#eab308''),
    (enumValue IncomeCategory ''BONUS'', ''#f43f5e''),
    (enumValue IncomeCategory ''INVESTMENT'', ''#0ea5e9''),
    (enumValue IncomeCategory ''SECOND_HAND'', ''#d946ef''),
    (enumValue IncomeCategory ''OTHER_INCOME'', ''#64748b'')]"

section \<open>Runtime helpers\<close>

text \<open>\<open>map.set(k, v)\<close> and \<open>acc[k] = v\<close>: overwrite in place, or append a new key at the end.\<close>

primrec mapSet :: "string \<Rightarrow> 'v \<Rightarrow> (string \<times> 'v) list \<Rightarrow> (string \<times> 'v) list" where
  "mapSet k v [] = [(k, v)]"
| "mapSet k v (p # ps) = (if fst p = k then (k, v) # ps else p # mapSet k v ps)"

text \<open>\<open>map.get(k) || 0\<close> and \<open>acc[k] || 0\<close>.\<close>

definition getOr0 :: "(string \<times> rat) list \<Rightarrow> string \<Rightarrow> rat" where
  "getOr0 m k = (case map_of m k of None \<Rightarrow> 0 | Some v \<Rightarrow> v)"

text \<open>\<open>xs.sort((a, b) => key(b) - key(a))\<close>.\<close>

definition sortDesc :: "('a \<Rightarrow> rat) \<Rightarrow> 'a list \<Rightarrow> 'a list" where
  "sortDesc key xs = sort_key (\<lambda>x. - key x) xs"

text \<open>
  \<open>String.prototype.trim\<close> strips white space and line terminators from both ends. A string
  is the list of the bytes of its UTF-8 encoding, as in the labels above, so these characters
  are the byte sequences of \<open>whiteSpace\<close>: U+0009 to U+000D, U+0020, U+00A0, U+1680, U+2000 to
  U+200A, U+2028, U+2029, U+202F, U+205F, U+3000 and U+FEFF.
\<close>

definition whiteSpace :: "string list" where
  "whiteSpace = [[CHR 0x09], [CHR 0x0A], [CHR 0x0B], [CHR 0x0C], [CHR 0x0D], [CHR 0x20],
     [CHR 0xC2, CHR 0xA0], [CHR 0xE1, CHR 0x9A, CHR 0x80],
     [CHR 0xE2, CHR 0x80, CHR 0x80], [CHR 0xE2, CHR 0x80, CHR 0x81], [CHR 0xE2, CHR 0x80, CHR 0x82],
     [CHR 0xE2, CHR 0x80, CHR 0x83], [CHR 0xE2, CHR 0x80, CHR 0x84], [CHR 0xE2, CHR 0x80, CHR 0x85],
     [CHR 0xE2, CHR 0x80, CHR 0x86], [CHR 0xE2, CHR 0x80, CHR 0x87], [CHR 0xE2, CHR 0x80, CHR 0x88],
     [CHR 0xE2, CHR 0x80, CHR 0x89], [CHR 0xE2, CHR 0x80, CHR 0x8A],
     [CHR 0xE2, CHR 0x80, CHR 0xA8], [CHR 0xE2, CHR 0x80, CHR 0xA9], [CHR 0xE2, CHR 0x80, CHR 0xAF],
     [CHR 0xE2, CHR 0x81, CHR 0x9F], [CHR 0xE3, CHR 0x80, CHR 0x80], [CHR 0xEF, CHR 0xBB, CHR 0xBF]]"

text \<open>Remove from the start of \<open>s\<close>, as often as possible, one of the sequences \<open>ws\<close>.\<close>

function stripStart :: "string list \<Rightarrow> string \<Rightarrow> string" where
  "stripStart ws s =
     (case find (\<lambda>w. w \<noteq> [] \<and> prefix w s) ws of
        None \<Rightarrow> s
      | Some w \<Rightarrow> stripStart ws (drop (length w) s))"
  by pat_completeness auto

termination
  by (relation "measure (\<lambda>p. length (snd p))") (auto simp: find_Some_iff prefix_def)

declare stripStart.simps [simp del]

definition trim :: "string \<Rightarrow> string" where
  "trim s = rev (stripStart (map rev whiteSpace) (rev (stripStart whiteSpace s)))"

text \<open>Decimal digits, and the number that a string of digits denotes.\<close>

definition isDigit :: "char \<Rightarrow> bool" where
  "isDigit c = (CHR ''0'' \<le> c \<and> c \<le> CHR ''9'')"

definition digitsToInt :: "string \<Rightarrow> int" where
  "digitsToInt s = foldl (\<lambda>n c. 10 * n + (of_char c - 48)) 0 s"

text \<open>
  A plain object, \<open>{}\<close> or an object literal, is the list of its own properties in the order
  of their creation; beyond them it inherits the properties of \<open>Object.prototype\<close>. Reading a
  key gives the own value, else the inherited one, else \<open>undefined\<close>.
\<close>

definition objectPrototypeKeys :: "string list" where
  "objectPrototypeKeys = [''constructor'', ''__defineGetter__'', ''__defineSetter__'',
     ''hasOwnProperty'', ''__lookupGetter__'', ''__lookupSetter__'', ''isPrototypeOf'',
     ''propertyIsEnumerable'', ''toString'', ''valueOf'', ''__proto__'', ''toLocaleString'']"

datatype 'v property = Own 'v | Inherited string | Undefined

definition objGet :: "(string \<times> 'v) list \<Rightarrow> string \<Rightarrow> 'v property" where
  "objGet obj k =
     (case map_of obj k of
        Some v \<Rightarrow> Own v
      | None \<Rightarrow> if k \<in> set objectPrototypeKeys then Inherited k else Undefined)"

text \<open>
  \<open>Object.entries\<close>: the own properties whose key is an array index (a canonical decimal
  numeral below \<open>2^32 - 1\<close>) in ascending order of the index, then the others in the order of
  their creation.
\<close>

definition isArrayIndex :: "string \<Rightarrow> bool" where
  "isArrayIndex s =
     (s \<noteq> [] \<and> list_all isDigit s \<and> (s = ''0'' \<or> hd s \<noteq> CHR ''0'') \<and> digitsToInt s < 2 ^ 32 - 1)"

definition objectEntries :: "(string \<times> 'v) list \<Rightarrow> (string \<times> 'v) list" where
  "objectEntries obj =
     sort_key (\<lambda>e. digitsToInt (fst e)) (filter (\<lambda>e. isArrayIndex (fst e)) obj)
     @ filter (\<lambda>e. \<not> isArrayIndex (fst e)) obj"

section \<open>Binary64 arithmetic\<close>

text \<open>
  A finite \<open>number\<close> is the rational it denotes. \<^term>\<open>round64\<close> rounds a rational to 53
  significant bits, ties to even: \<open>ilog2\<close> is the exponent of the leading bit and
  \<open>pow2 (ilog2 \<bar>x\<bar> - 52)\<close> the spacing of the doubles around \<open>x\<close>. The exponent range is not
  modelled. For \<open>+\<close> and \<open>-\<close> on doubles that loses nothing at the small end, where every sum of
  two doubles is a double; at the large end it leaves out the overflow to \<open>Infinity\<close>, which
  needs a sum of \<open>2^1024\<close>.
\<close>

definition pow2 :: "int \<Rightarrow> rat" where
  "pow2 e = (if 0 \<le> e then 2 ^ nat e else 1 / 2 ^ nat (- e))"

definition ilog2 :: "rat \<Rightarrow> int" where
  "ilog2 x = (if 1 \<le> x then bitlen \<lfloor>x\<rfloor> - 1 else - bitlen (\<lceil>1 / x\<rceil> - 1))"

definition roundEven :: "rat \<Rightarrow> int" where
  "roundEven y =
     (let f = \<lfloor>y\<rfloor>; d = y - of_int f
      in if d < 1 / 2 then f else if 1 / 2 < d then f + 1 else if even f then f else f + 1)"

definition round64 :: "rat \<Rightarrow> rat" where
  "round64 x =
     (if x = 0 then 0
      else (let q = pow2 (ilog2 \<bar>x\<bar> - 52) in of_int (roundEven (x / q)) * q))"

text \<open>\<open>a + b\<close> and \<open>a - b\<close> on numbers; a decimal literal, and what \<open>parseFloat\<close> reads.\<close>

definition fadd :: "rat \<Rightarrow> rat \<Rightarrow> rat" where
  "fadd a b = round64 (a + b)"

definition fsub :: "rat \<Rightarrow> rat \<Rightarrow> rat" where
  "fsub a b = round64 (a - b)"

definition toDouble :: "rat \<Rightarrow> rat" where
  "toDouble q = round64 q"

section \<open>AnalyticsModal.tsx: month filter and itemised drill-down\<close>

text \<open>\<open>filteredTransactions\<close>: the month filter of the modal.\<close>

definition filteredTransactions :: "string \<Rightarrow> Transaction list \<Rightarrow> Transaction list" where
  "filteredTransactions selectedMonth transactions =
     (if selectedMonth = ''all'' then transactions
      else filter (\<lambda>t. prefix selectedMonth (date t)) transactions)"

text \<open>The label of the manual bucket, \<open>U+672A U+5206 U+985E / U+624B U+52D5 U+8F38 U+5165\<close>.\<close>

definition manualLabel :: string where
  "manualLabel = [CHR 0xE6, CHR 0x9C, CHR 0xAA, CHR 0xE5, CHR 0x88, CHR 0x86, CHR 0xE9, CHR 0xA1,
     CHR 0x9E, CHR 0x2F, CHR 0xE6, CHR 0x89, CHR 0x8B, CHR 0xE5, CHR 0x8B, CHR 0x95, CHR 0xE8,
     CHR 0xBC, CHR 0xB8, CHR 0xE5, CHR 0x85, CHR 0xA5]"

text \<open>The inner loop \<open>t.items.forEach\<close>: the state is \<open>(itemMap, itemsSum)\<close>.\<close>

definition itemStep :: "(string \<times> rat) list \<times> rat \<Rightarrow> ReceiptItem \<Rightarrow> (string \<times> rat) list \<times> rat" where
  "itemStep st item =
     (let nm = trim (name item)
      in (mapSet nm (fadd (getOr0 (fst st) nm) (price item)) (fst st), fadd (snd st) (price item)))"

text \<open>The outer loop \<open>relevantTransactions.forEach\<close>: the state is \<open>(itemMap, manualEntryTotal)\<close>.\<close>

definition txStep :: "(string \<times> rat) list \<times> rat \<Rightarrow> Transaction \<Rightarrow> (string \<times> rat) list \<times> rat" where
  "txStep st t =
     (case items t of
        None \<Rightarrow> (fst st, fadd (snd st) (amountAUD t))
      | Some its \<Rightarrow>
          if length its > 0 then
            (let st' = foldl itemStep (fst st, 0) its
             in (fst st',
                 if amountAUD t > fadd (snd st') (toDouble (1 / 10))
                 then fadd (snd st) (fsub (amountAUD t) (snd st')) else snd st))
          else (fst st, fadd (snd st) (amountAUD t)))"

definition itemizedData :: "string option \<Rightarrow> Transaction list \<Rightarrow> (string \<times> rat) list" where
  "itemizedData detailCategory filtered =
     (case detailCategory of
        None \<Rightarrow> []
      | Some c \<Rightarrow>
          if c = [] then []
          else
            (let relevantTransactions = filter (\<lambda>t. category t = c) filtered;
                 st = foldl txStep ([], 0) relevantTransactions;
                 results =
                   fst st @ (if snd st > toDouble (1 / 100) then [(manualLabel, snd st)] else [])
             in sortDesc snd results))"

text \<open>\<open>totalItemizedExpense\<close>: the sum of the values of all buckets.\<close>

definition totalItemizedExpense :: "(string \<times> rat) list \<Rightarrow> rat" where
  "totalItemizedExpense itemized = foldl (\<lambda>sum item. fadd sum (snd item)) 0 itemized"

text \<open>
  The reducer \<open>acc[curr.category] = (acc[curr.category] || 0) + curr.amountAUD\<close> of
  \<open>categoryData\<close> and \<open>chartData\<close>, from \<open>{}\<close>. The value under a key is a number, or a string
  once the key names a property of \<open>Object.prototype\<close>: the inherited value is a function (for
  \<open>__proto__\<close> the prototype itself), so \<open>+\<close> concatenates. \<^term>\<open>Text p xs\<close> is the string made
  of the text of the inherited value of \<open>p\<close> and then of the numbers \<open>xs\<close>, in this order.
  Assigning a string to \<open>__proto__\<close> does nothing; assigning to any other key creates or
  overwrites an own property.
\<close>

datatype slot = Amount rat | Text string "rat list"

definition categoryStep :: "(string \<times> slot) list \<Rightarrow> Transaction \<Rightarrow> (string \<times> slot) list" where
  "categoryStep acc t =
     (let k = category t; a = amountAUD t
      in case objGet acc k of
           Own (Amount v) \<Rightarrow> mapSet k (Amount (fadd v a)) acc
         | Own (Text p xs) \<Rightarrow> mapSet k (Text p (xs @ [a])) acc
         | Inherited p \<Rightarrow> if k = ''__proto__'' then acc else mapSet k (Text p [a]) acc
         | Undefined \<Rightarrow> mapSet k (Amount (fadd 0 a)) acc)"

text \<open>
  \<open>.sort((a, b) => b.value - a.value)\<close>. On numbers it sorts in descending order. A string
  value makes the difference \<open>NaN\<close>, which counts as \<open>0\<close>: if all numbers are equal every
  comparison then answers \<open>0\<close> and the order stays; otherwise the comparator is not
  consistent and the order is left to the implementation (\<^const>\<open>None\<close>).
\<close>

fun isAmount :: "slot \<Rightarrow> bool" where
  "isAmount (Amount v) = True"
| "isAmount (Text p xs) = False"

fun amountOf :: "slot \<Rightarrow> rat" where
  "amountOf (Amount v) = v"
| "amountOf (Text p xs) = 0"

definition sortByValue :: "(string \<times> slot) list \<Rightarrow> (string \<times> slot) list option" where
  "sortByValue es =
     (if list_all (\<lambda>e. isAmount (snd e)) es then Some (sortDesc (\<lambda>e. amountOf (snd e)) es)
      else if length (remdups (map (\<lambda>e. amountOf (snd e)) (filter (\<lambda>e. isAmount (snd e)) es))) \<le> 1
      then Some es
      else None)"

text \<open>\<open>categoryData\<close>: the pie chart of the modal, highest expense first.\<close>

definition categoryData :: "Transaction list \<Rightarrow> (string \<times> slot) list option" where
  "categoryData filtered =
     (let expenseOnly = filter (\<lambda>t. typeT t \<noteq> income) filtered;
          grouped = foldl categoryStep [] expenseOnly
      in sortByValue (objectEntries grouped))"

text \<open>
  The fill of a pie cell: \<open>CATEGORY_COLORS[entry.name as Category] || '#94a3b8'\<close>. Under a key
  that \<open>CATEGORY_COLORS\<close> only inherits the fill is no colour but the inherited value.
\<close>

datatype fill = Colour string | NotAColour string

definition cellFill :: "string \<Rightarrow> fill" where
  "cellFill nm =
     (case objGet CATEGORY_COLORS nm of
        Own c \<Rightarrow> if c = [] then Colour ''#94a3b8'' else Colour c
      | Inherited p \<Rightarrow> NotAColour p
      | Undefined \<Rightarrow> Colour ''#94a3b8'')"

section \<open>The \<open>Date\<close> built-in on date-only strings\<close>

text \<open>
  \<open>new Date(s)\<close> reads a date-only ISO string \<open>YYYY-MM-DD\<close> as midnight UTC; \<open>getFullYear\<close> and
  \<open>getMonth\<close> then answer in local time. The local time zone is a parameter: \<open>tz\<close> minutes east
  of UTC. Strings of any other shape, and field values that are no calendar date, are not
  modelled (\<^const>\<open>None\<close>): what engines do with them differs.
\<close>

definition isLeapYear :: "int \<Rightarrow> bool" where
  "isLeapYear y = (y mod 4 = 0 \<and> (y mod 100 \<noteq> 0 \<or> y mod 400 = 0))"

definition daysInMonth :: "int \<Rightarrow> int \<Rightarrow> int" where
  "daysInMonth y m =
     (if m = 2 then (if isLeapYear y then 29 else 28)
      else if m \<in> {4, 6, 9, 11} then 30 else 31)"

definition parseDateOnly :: "string \<Rightarrow> (int \<times> int \<times> int) option" where
  "parseDateOnly s =
     (if length s = 10 \<and> s ! 4 = CHR ''-'' \<and> s ! 7 = CHR ''-''
         \<and> list_all isDigit (take 4 s) \<and> list_all isDigit (take 2 (drop 5 s))
         \<and> list_all isDigit (drop 8 s)
      then
        (let y = digitsToInt (take 4 s); m = digitsToInt (take 2 (drop 5 s));
             d = digitsToInt (drop 8 s)
         in if 1 \<le> m \<and> m \<le> 12 \<and> 1 \<le> d \<and> d \<le> daysInMonth y m then Some (y, m, d) else None)
      else None)"

text \<open>Days since 1970-01-01 of a proleptic Gregorian date, and back.\<close>

definition daysFromCivil :: "int \<Rightarrow> int \<Rightarrow> int \<Rightarrow> int" where
  "daysFromCivil y0 m d =
     (let y = (if m \<le> 2 then y0 - 1 else y0);
          era = y div 400;
          yoe = y - era * 400;
          doy = (153 * (if m > 2 then m - 3 else m + 9) + 2) div 5 + d - 1;
          doe = yoe * 365 + yoe div 4 - yoe div 100 + doy
      in era * 146097 + doe - 719468)"

definition civilFromDays :: "int \<Rightarrow> int \<times> int \<times> int" where
  "civilFromDays z0 =
     (let z = z0 + 719468;
          era = z div 146097;
          doe = z - era * 146097;
          yoe = (doe - doe div 1460 + doe div 36524 - doe div 146096) div 365;
          y = yoe + era * 400;
          doy = doe - (365 * yoe + yoe div 4 - yoe div 100);
          mp = (5 * doy + 2) div 153;
          d = doy - (153 * mp + 2) div 5 + 1;
          m = (if mp < 10 then mp + 3 else mp - 9)
      in (if m \<le> 2 then y + 1 else y, m, d))"

text \<open>\<open>new Date(s).getTime()\<close>: milliseconds since the epoch.\<close>

definition getTime :: "string \<Rightarrow> int option" where
  "getTime s = (case parseDateOnly s of
                  None \<Rightarrow> None
                | Some (y, m, d) \<Rightarrow> Some (daysFromCivil y m d * 86400000))"

text \<open>\<open>(getFullYear(), getMonth())\<close> of \<open>new Date(s)\<close>; \<open>getMonth\<close> counts from 0.\<close>

definition localYearMonth :: "int \<Rightarrow> string \<Rightarrow> (int \<times> int) option" where
  "localYearMonth tz s =
     (case getTime s of
        None \<Rightarrow> None
      | Some ms \<Rightarrow>
          (case civilFromDays ((ms + tz * 60000) div 86400000) of
             (y, m, d) \<Rightarrow> Some (y, m - 1)))"

text \<open>Template-literal and \<open>String(n)\<close> rendering of an integer; \<open>padStart(2, '0')\<close>.\<close>

fun showNat :: "nat \<Rightarrow> string" where
  "showNat n = (if n < 10 then [char_of (48 + n)] else showNat (n div 10) @ [char_of (48 + n mod 10)])"

definition showInt :: "int \<Rightarrow> string" where
  "showInt i = (if i < 0 then CHR ''-'' # showNat (nat (- i)) else showNat (nat i))"

definition padStart2 :: "string \<Rightarrow> string" where
  "padStart2 s = replicate (2 - length s) CHR ''0'' @ s"

section \<open>AnalyticsModal.tsx: monthly trend\<close>

text \<open>Lines 30-31: the key of a transaction in \<open>monthlyData\<close>.\<close>

definition trendKey :: "int \<Rightarrow> Transaction \<Rightarrow> string option" where
  "trendKey tz t =
     (case localYearMonth tz (date t) of
        None \<Rightarrow> None
      | Some (y, m) \<Rightarrow> Some (showInt y @ ''-'' @ padStart2 (showInt (m + 1))))"

text \<open>
  The object \<open>{ name, Income, Expense, Net }\<close> of the map; \<open>shortName\<close> is paired with it at the
  end. The fields carry the suffix \<open>D\<close>.
\<close>

record TrendEntry =
  nameD :: string
  IncomeD :: rat
  ExpenseD :: rat
  NetD :: rat

text \<open>One round of \<open>transactions.forEach\<close> on the map, given the key.\<close>

definition trendStep :: "(string \<times> TrendEntry) list \<Rightarrow> string \<times> Transaction \<Rightarrow> (string \<times> TrendEntry) list" where
  "trendStep m kt =
     (let key = fst kt; t = snd kt;
          m1 = (if map_of m key = None
                then mapSet key \<lparr>nameD = key, IncomeD = 0, ExpenseD = 0, NetD = 0\<rparr> m else m);
          entry = (case map_of m1 key of Some e \<Rightarrow> e
                   | None \<Rightarrow> \<lparr>nameD = key, IncomeD = 0, ExpenseD = 0, NetD = 0\<rparr>);
          entry1 = (if typeT t = income then entry\<lparr>IncomeD := fadd (IncomeD entry) (amountAUD t)\<rparr>
                    else entry\<lparr>ExpenseD := fadd (ExpenseD entry) (amountAUD t)\<rparr>);
          entry2 = entry1\<lparr>NetD := fsub (IncomeD entry1) (ExpenseD entry1)\<rparr>
      in mapSet key entry2 m1)"

text \<open>\<open>'a-b'.split('-')\<close>, and \<open>shortName\<close>, its element 1 when there is one.\<close>

fun split :: "char \<Rightarrow> string \<Rightarrow> string list" where
  "split sep [] = [[]]"
| "split sep (c # cs) =
     (if c = sep then [] # split sep cs
      else (case split sep cs of [] \<Rightarrow> [[c]] | w # ws \<Rightarrow> (c # w) # ws))"

definition shortName :: "string \<Rightarrow> string option" where
  "shortName nm = (case split CHR ''-'' nm of a # b # _ \<Rightarrow> Some b | _ \<Rightarrow> None)"

text \<open>
  \<open>monthlyData\<close>, with \<open>localeCompare\<close> taken as the order of the characters (the two agree on
  keys made of digits and hyphens). The result is \<^const>\<open>None\<close> when some date is outside the
  modelled part of \<open>Date\<close>.
\<close>

definition monthlyData :: "int \<Rightarrow> Transaction list \<Rightarrow> (TrendEntry \<times> string option) list option" where
  "monthlyData tz transactions =
     (if list_all (\<lambda>t. trendKey tz t \<noteq> None) transactions
      then
        (let m = foldl trendStep [] (map (\<lambda>t. (the (trendKey tz t), t)) transactions)
         in Some (map (\<lambda>item. (item, shortName (nameD item))) (sort_key nameD (map snd m))))
      else None)"

text \<open>\<open>availableMonths\<close>: the months of the drop-down.\<close>

definition availableMonths :: "Transaction list \<Rightarrow> string list" where
  "availableMonths transactions = rev (sort (remdups (map (\<lambda>t. take 7 (date t)) transactions)))"

section \<open>App.tsx: totals, chart, monthly history, budgets\<close>

definition incomeTransactions :: "Transaction list \<Rightarrow> Transaction list" where
  "incomeTransactions transactions = filter (\<lambda>t. typeT t = income) transactions"

definition expenseTransactions :: "Transaction list \<Rightarrow> Transaction list" where
  "expenseTransactions transactions = filter (\<lambda>t. typeT t \<noteq> income) transactions"

definition totalIncomeAUD :: "Transaction list \<Rightarrow> rat" where
  "totalIncomeAUD transactions =
     foldl (\<lambda>sum t. fadd sum (amountAUD t)) 0 (incomeTransactions transactions)"

definition totalExpenseAUD :: "Transaction list \<Rightarrow> rat" where
  "totalExpenseAUD transactions =
     foldl (\<lambda>sum t. fadd sum (amountAUD t)) 0 (expenseTransactions transactions)"

definition netAssetsAUD :: "Transaction list \<Rightarrow> rat" where
  "netAssetsAUD transactions = fsub (totalIncomeAUD transactions) (totalExpenseAUD transactions)"

definition chartData :: "Transaction list \<Rightarrow> (string \<times> slot) list" where
  "chartData transactions = objectEntries (foldl categoryStep [] (expenseTransactions transactions))"

text \<open>Line 241: the key of a transaction in \<open>monthlyHistory\<close>.\<close>

definition monthKey :: "Transaction \<Rightarrow> string" where
  "monthKey t = take 7 (date t)"

text \<open>One round of \<open>transactions.forEach\<close>; the map holds \<open>(income, expense)\<close> per month.\<close>

definition historyStep :: "(string \<times> rat \<times> rat) list \<Rightarrow> Transaction \<Rightarrow> (string \<times> rat \<times> rat) list" where
  "historyStep m t =
     (let m1 = (if map_of m (monthKey t) = None then mapSet (monthKey t) (0, 0) m else m);
          entry = (case map_of m1 (monthKey t) of Some e \<Rightarrow> e | None \<Rightarrow> (0, 0))
      in if typeT t = income
         then mapSet (monthKey t) (fadd (fst entry) (amountAUD t), snd entry) m1
         else mapSet (monthKey t) (fst entry, fadd (snd entry) (amountAUD t)) m1)"

text \<open>An entry \<open>{ month, income, expense, net }\<close> of the result; three fields carry the suffix \<open>H\<close>.\<close>

record MonthlyEntry =
  month :: string
  incomeH :: rat
  expenseH :: rat
  netH :: rat

text \<open>A stable sort by descending string key, as \<open>sort((a, b) => b[0].localeCompare(a[0]))\<close>.\<close>

definition sortDescStr :: "('a \<Rightarrow> string) \<Rightarrow> 'a list \<Rightarrow> 'a list" where
  "sortDescStr key xs = rev (sort_key key (rev xs))"

definition monthlyHistory :: "Transaction list \<Rightarrow> MonthlyEntry list" where
  "monthlyHistory transactions =
     (let m = foldl historyStep [] transactions
      in map (\<lambda>e. \<lparr>month = fst e, incomeH = fst (snd e), expenseH = snd (snd e),
                    netH = fsub (fst (snd e)) (snd (snd e))\<rparr>)
           (sortDescStr fst m))"


text \<open>
  The reducer \<open>acc[t.category] = (acc[t.category] || 0) + t.amountAUD\<close> of
  \<open>currentMonthSpending\<close>, from \<open>{}\<close>. \<open>budgetStatus\<close> reads the result at the keys of \<open>budgets\<close>
  only, which the budget form takes from \<open>Object.values(Category)\<close>: none of them names a
  property of \<open>Object.prototype\<close>, so here the object is the map of its own number-valued
  properties, and the sums are those of the amounts.
\<close>

definition sumByCategory :: "Transaction list \<Rightarrow> (string \<times> rat) list" where
  "sumByCategory ts =
     foldl (\<lambda>acc curr. mapSet (category curr) (getOr0 acc (category curr) + amountAUD curr) acc) [] ts"



section \<open>PriceWatchModal.tsx: item statistics\<close>

text \<open>
  A price \<open>{ price, store, date }\<close> and the interface \<open>ItemStat\<close>; fields whose names are taken
  carry the suffixes \<open>P\<close> and \<open>S\<close>.
\<close>

record PriceRecord =
  priceP :: rat
  store :: string
  dateP :: string

record ItemStat =
  nameS :: string
  minPrice :: rat
  maxPrice :: rat
  avgPrice :: rat
  bestStore :: string
  lastPrice :: rat
  history :: "PriceRecord list"

text \<open>\<open>t.note || 'Unknown'\<close>.\<close>

definition storeOf :: "Transaction \<Rightarrow> string" where
  "storeOf t = (if noteT t = [] then ''Unknown'' else noteT t)"

text \<open>The body of \<open>t.items.forEach\<close>: \<open>statsMap\<close> maps a name to its \<open>prices\<close>.\<close>

definition pushPrice :: "Transaction \<Rightarrow> (string \<times> PriceRecord list) list \<Rightarrow> ReceiptItem \<Rightarrow> (string \<times> PriceRecord list) list" where
  "pushPrice t statsMap item =
     (let normalizedName = trim (name item);
          m1 = (if map_of statsMap normalizedName = None
                then mapSet normalizedName [] statsMap else statsMap);
          prices = (case map_of m1 normalizedName of None \<Rightarrow> [] | Some ps \<Rightarrow> ps)
      in mapSet normalizedName
           (prices @ [\<lparr>priceP = price item, store = storeOf t, dateP = date t\<rparr>]) m1)"

definition statsMapOf :: "Transaction list \<Rightarrow> (string \<times> PriceRecord list) list" where
  "statsMapOf transactions =
     foldl (\<lambda>statsMap t.
              case items t of
                None \<Rightarrow> statsMap
              | Some its \<Rightarrow> if length its > 0 then foldl (pushPrice t) statsMap its else statsMap)
       [] transactions"

text \<open>\<open>Math.min(...vs)\<close> and \<open>Math.max(...vs)\<close> of a list that is not empty.\<close>

definition mathMin :: "rat list \<Rightarrow> rat" where
  "mathMin vs = foldl min (hd vs) (tl vs)"

definition mathMax :: "rat list \<Rightarrow> rat" where
  "mathMax vs = foldl max (hd vs) (tl vs)"

text \<open>
  The body of \<open>statsMap.forEach\<close> for a name with at least one price (the guard
  \<open>data.prices.length > 0\<close> is the filter in \<open>itemStats\<close>, so \<open>sortedPrices[0]\<close> exists). \<open>time\<close> is
  \<open>new Date(d).getTime()\<close> as a number; dates for which that is \<open>NaN\<close> are outside the model.
\<close>

definition itemStat :: "(string \<Rightarrow> int) \<Rightarrow> string \<times> PriceRecord list \<Rightarrow> ItemStat" where
  "itemStat time e =
     (let prices = snd e;
          sortedPrices = sort_key (\<lambda>p. - time (dateP p)) prices;
          priceValues = map priceP prices;
          minPrice = mathMin priceValues;
          maxPrice = mathMax priceValues;
          avgPrice = foldl (+) 0 priceValues / of_nat (length priceValues);
          bestBuy = find (\<lambda>p. priceP p = minPrice) prices
      in \<lparr>nameS = fst e, minPrice = minPrice, maxPrice = maxPrice, avgPrice = avgPrice,
          bestStore = (case bestBuy of None \<Rightarrow> ''Unknown''
                       | Some p \<Rightarrow> if store p = [] then ''Unknown'' else store p),
          lastPrice = priceP (hd sortedPrices),
          history = sortedPrices\<rparr>)"

definition itemStats :: "(string \<Rightarrow> int) \<Rightarrow> Transaction list \<Rightarrow> ItemStat list" where
  "itemStats time transactions =
     (let results = map (itemStat time) (filter (\<lambda>e. length (snd e) > 0) (statsMapOf transactions))
      in sort_key (\<lambda>s. - int (length (history s))) results)"

section \<open>Vocabulary of the statements\<close>

subsection \<open>Rounding\<close>

text \<open>
  The unit roundoff of binary64, and agreement of two numbers up to \<open>n\<close> roundings: each is
  within the factor \<open>((1 + u) / (1 - u)) ^ n\<close> of the other.
\<close>

definition unitRoundoff :: rat where
  "unitRoundoff = 1 / 2 ^ 53"

definition approx :: "nat \<Rightarrow> rat \<Rightarrow> rat \<Rightarrow> bool" where
  "approx n x y \<longleftrightarrow>
     x * (1 - unitRoundoff) ^ n \<le> y * (1 + unitRoundoff) ^ n
     \<and> y * (1 - unitRoundoff) ^ n \<le> x * (1 + unitRoundoff) ^ n"

subsection \<open>Drill-down\<close>

text \<open>
  \<open>relevantTransactions\<close>, \<open>itemMap\<close> and \<open>manualEntryTotal\<close> are the local variables of
  \<open>itemizedData\<close>, here as functions of its input.
\<close>

definition relevantTransactions :: "string \<Rightarrow> Transaction list \<Rightarrow> Transaction list" where
  "relevantTransactions c filtered = filter (\<lambda>t. category t = c) filtered"

definition itemMapOf :: "Transaction list \<Rightarrow> (string \<times> rat) list" where
  "itemMapOf rel = fst (foldl txStep ([], 0) rel)"

definition manualEntryTotal :: "Transaction list \<Rightarrow> rat" where
  "manualEntryTotal rel = snd (foldl txStep ([], 0) rel)"

text \<open>A transaction carries items when the list is present and not empty.\<close>

definition hasItems :: "Transaction \<Rightarrow> bool" where
  "hasItems t = (case items t of None \<Rightarrow> False | Some its \<Rightarrow> its \<noteq> [])"

definition itemsOf :: "Transaction \<Rightarrow> ReceiptItem list" where
  "itemsOf t = (case items t of None \<Rightarrow> [] | Some its \<Rightarrow> its)"

text \<open>
  The sum of the prices of the items of a transaction: \<open>itemsSum\<close> in exact arithmetic,
  \<open>itemsSumF\<close> as the loop over the items leaves it in the local variable \<open>itemsSum\<close>, one
  rounded addition for each item, from \<open>0\<close>.
\<close>

definition itemsSum :: "Transaction \<Rightarrow> rat" where
  "itemsSum t = sum_list (map price (itemsOf t))"

definition itemsSumF :: "Transaction \<Rightarrow> rat" where
  "itemsSumF t = foldl fadd 0 (map price (itemsOf t))"

text \<open>The prices, among some items and in their order, of those whose trimmed name is \<open>n\<close>.\<close>

definition namedPrices :: "string \<Rightarrow> ReceiptItem list \<Rightarrow> rat list" where
  "namedPrices n its = map price (filter (\<lambda>i. trim (name i) = n) its)"

text \<open>
  The test of line 102, \<open>t.amountAUD > itemsSum + 0.1\<close>, and the remainder
  \<open>t.amountAUD - itemsSum\<close> that line 103 adds when the test passes.
\<close>

definition passesGuard :: "Transaction \<Rightarrow> bool" where
  "passesGuard t = (amountAUD t > fadd (itemsSumF t) (toDouble (1 / 10)))"

definition remainderF :: "Transaction \<Rightarrow> rat" where
  "remainderF t = fsub (amountAUD t) (itemsSumF t)"

text \<open>
  The transactions that add to the manual bucket, and what each adds: the whole amount of a
  transaction without items, the remainder of one with items that passes the test.
\<close>

definition addsToManual :: "Transaction \<Rightarrow> bool" where
  "addsToManual t = (if hasItems t then passesGuard t else True)"

definition manualShareF :: "Transaction \<Rightarrow> rat" where
  "manualShareF t = (if hasItems t then remainderF t else amountAUD t)"

text \<open>
  A receipt is balanced when its amount is the sum of its item prices up to the rounding of
  that sum, one rounding for each item; so it is when the amount is the exact sum, and when
  it is the sum as the code adds it.
\<close>

definition balanced :: "Transaction \<Rightarrow> bool" where
  "balanced t = approx (length (itemsOf t)) (itemsSum t) (amountAUD t)"

text \<open>The additions the drill-down makes at most: one for each transaction and each item.\<close>

definition opCount :: "Transaction list \<Rightarrow> nat" where
  "opCount rel = length rel + sum_list (map (\<lambda>t. length (itemsOf t)) rel)"

subsection \<open>Totals, categories, budgets\<close>

text \<open>What a transaction adds to the income total and to the expense total.\<close>

definition incomeShare :: "Transaction \<Rightarrow> rat" where
  "incomeShare t = (if typeT t = income then amountAUD t else 0)"

definition expenseShare :: "Transaction \<Rightarrow> rat" where
  "expenseShare t = (if typeT t \<noteq> income then amountAUD t else 0)"

text \<open>
  The expense-only spending of category \<open>c\<close>: over all months, added in order as the charts
  add it; and within the month \<open>k\<close>.
\<close>

definition categorySpent :: "Transaction list \<Rightarrow> string \<Rightarrow> rat" where
  "categorySpent ts c =
     foldl fadd 0 (map amountAUD (filter (\<lambda>t. typeT t \<noteq> income \<and> category t = c) ts))"



subsection \<open>Price records\<close>

text \<open>\<open>statsMap.get(n)?.prices\<close>, empty when the name has no entry.\<close>

definition pricesOf :: "(string \<times> PriceRecord list) list \<Rightarrow> string \<Rightarrow> PriceRecord list" where
  "pricesOf statsMap n = (case map_of statsMap n of None \<Rightarrow> [] | Some ps \<Rightarrow> ps)"

text \<open>
  The record that claim C10 expects of an item \<open>i\<close> of a transaction \<open>t\<close>, and the records of
  all items named \<open>n\<close>, in the order of the transactions and of their items.
\<close>

definition recordOf :: "Transaction \<Rightarrow> ReceiptItem \<Rightarrow> PriceRecord" where
  "recordOf t i =
     \<lparr>priceP = price i, store = (if noteT t = [] then ''Unknown'' else noteT t), dateP = date t\<rparr>"

definition recordsNamed :: "string \<Rightarrow> Transaction list \<Rightarrow> PriceRecord list" where
  "recordsNamed n ts =
     concat (map (\<lambda>t. map (recordOf t) (filter (\<lambda>i. trim (name i) = n) (itemsOf t))) ts)"

text \<open>
  \<open>new Date(d).getTime()\<close> as the argument \<open>time\<close> of \<^const>\<open>itemStats\<close>, for lists whose dates
  are all date-only strings.
\<close>

definition timeOf :: "string \<Rightarrow> int" where
  "timeOf d = (case getTime d of None \<Rightarrow> 0 | Some ms \<Rightarrow> ms)"

text \<open>
  What a transaction adds to the buckets, in exact arithmetic: the prices of its items and,
  when the test passes, its remainder; or its amount when it carries no items.
\<close>

definition bucketShare :: "Transaction \<Rightarrow> rat" where
  "bucketShare t =
     (if hasItems t then itemsSum t + (if passesGuard t then remainderF t else 0)
      else amountAUD t)"

text \<open>The number under a key of the accumulator of the category reducer, \<open>0\<close> without one.\<close>

definition numAt :: "(string \<times> slot) list \<Rightarrow> string \<Rightarrow> rat" where
  "numAt acc c = (case map_of acc c of Some (Amount v) \<Rightarrow> v | _ \<Rightarrow> 0)"

definition numeric :: "(string \<times> slot) list \<Rightarrow> string \<Rightarrow> bool" where
  "numeric acc c = (case map_of acc c of Some (Text p xs) \<Rightarrow> False | _ \<Rightarrow> True)"

section \<open>Sample inputs\<close>

text \<open>A transaction and an item with the fields that the computations read.\<close>

definition mkTx :: "TransactionType \<Rightarrow> rat \<Rightarrow> string \<Rightarrow> string \<Rightarrow> string \<Rightarrow> ReceiptItem list option \<Rightarrow> Transaction" where
  "mkTx ty a c d n its = \<lparr>idT = [], typeT = ty, amountAUD = a, amountTWD = 0, category = c,
     date = d, noteT = n, items = its, tax = None, superannuation = None\<rparr>"

definition mkItem :: "string \<Rightarrow> rat \<Rightarrow> ReceiptItem" where
  "mkItem n p = \<lparr>name = n, price = p, quantity = None\<rparr>"

text \<open>
  Scenario A of the specification; the same receipt with a total of 5, below the sum of its
  items; a manual entry of \<open>1/16\<close>.
\<close>

definition scenarioA :: Transaction where
  "scenarioA = mkTx expense 50 ''Groceries'' ''2024-01-05'' ''Shop''
     (Some [mkItem ''Milk'' 4, mkItem ''Bread'' 3])"

definition overItemised :: Transaction where
  "overItemised = mkTx expense 5 ''Groceries'' ''2024-01-05'' ''Shop''
     (Some [mkItem ''Milk'' 4, mkItem ''Bread'' 3])"

definition smallManual :: Transaction where
  "smallManual = mkTx expense (1 / 16) ''Groceries'' ''2024-01-05'' ''Shop'' None"







text \<open>An expense whose label is in neither enumeration.\<close>

definition legacyTx :: Transaction where
  "legacyTx = mkTx expense 5 ''Legacy'' ''2024-01-05'' [] None"

text \<open>
  A receipt without a note; two receipts with milk at the same price, a month apart; an
  expense on the first day of a year.
\<close>

definition unnamedShop :: Transaction where
  "unnamedShop = mkTx expense 8 ''Groceries'' ''2024-03-02'' []
     (Some [mkItem ''Milk'' 4, mkItem '' Eggs '' 4])"

definition priceTieJan :: Transaction where
  "priceTieJan = mkTx expense 3 ''Groceries'' ''2024-01-01'' ''Aldi'' (Some [mkItem ''Milk'' 3])"

definition priceTieFeb :: Transaction where
  "priceTieFeb = mkTx expense 3 ''Groceries'' ''2024-02-01'' ''Coles'' (Some [mkItem ''Milk'' 3])"

definition newYearTx :: Transaction where
  "newYearTx = mkTx expense 20 ''Groceries'' ''2024-01-01'' ''Shop'' None"

text \<open>Incomes of 0.1 and 0.4 in January and of 0.2 in February, as \<open>parseFloat\<close> reads them.\<close>

definition tenths :: "Transaction list" where
  "tenths = [mkTx income (toDouble (1 / 10)) ''Salary'' ''2024-01-05'' [] None,
             mkTx income (toDouble (2 / 10)) ''Salary'' ''2024-02-05'' [] None,
             mkTx income (toDouble (4 / 10)) ''Salary'' ''2024-01-20'' [] None]"

text \<open>
  A receipt of 0.4 with one item of 0.3, and two receipts that both name milk, one of them
  with a space after the name.
\<close>

definition fortyCents :: Transaction where
  "fortyCents = mkTx expense (toDouble (4 / 10)) ''Groceries'' ''2024-01-05'' ''Shop''
     (Some [mkItem ''Milk'' (toDouble (3 / 10))])"

definition milkTwice :: "Transaction list" where
  "milkTwice = [mkTx expense 4 ''Groceries'' ''2024-01-05'' ''Shop'' (Some [mkItem ''Milk'' 4]),
                mkTx expense 10 ''Groceries'' ''2024-01-06'' ''Shop''
                  (Some [mkItem ''Milk '' 3, mkItem ''Bread'' 2])]"

text \<open>A receipt of 0.3 with items of 0.1 and 0.2.\<close>

definition thirtyCents :: Transaction where
  "thirtyCents = mkTx expense (toDouble (3 / 10)) ''Groceries'' ''2024-01-07'' ''Shop''
     (Some [mkItem ''Gum'' (toDouble (1 / 10)), mkItem ''Tea'' (toDouble (2 / 10))])"

text \<open>Expenses whose labels name properties of \<open>Object.prototype\<close>, and one labelled \<open>7\<close>.\<close>

definition protoTx :: Transaction where
  "protoTx = mkTx expense 5 ''__proto__'' ''2024-01-05'' [] None"

definition constructorTx :: Transaction where
  "constructorTx = mkTx expense 5 ''constructor'' ''2024-01-05'' [] None"

definition sevenTx :: Transaction where
  "sevenTx = mkTx expense 2 ''7'' ''2024-01-06'' [] None"

section \<open>Properties of the components\<close>

subsection \<open>Maps, sums and sorting\<close>

lemma map_of_mapSet: "map_of (mapSet k v m) = (map_of m)(k \<mapsto> v)"
  by (induction m) auto

lemma getOr0_mapSet: "getOr0 (mapSet k v m) k' = (if k' = k then v else getOr0 m k')"
  by (simp add: getOr0_def map_of_mapSet)

lemma sum_mapSet_gen:
  "sum_list (map (\<lambda>e. g (snd e)) (mapSet k v m)) =
     sum_list (map (\<lambda>e. g (snd e)) m) - (case map_of m k of None \<Rightarrow> 0 | Some old \<Rightarrow> g old) + g v"
  for g :: "'v \<Rightarrow> rat"
  by (induction m) auto

lemma keys_mapSet: "fst ` set (mapSet k v m) = insert k (fst ` set m)"
  by (induction m) auto

lemma distinct_mapSet: "distinct (map fst (mapSet k v m)) = distinct (map fst m)"
  by (induction m) (auto simp: keys_mapSet)

lemma sum_sort_key: "sum_list (map g (sort_key f xs)) = sum_list (map g xs)"
  for g :: "'a \<Rightarrow> rat"
proof -
  have "sum_list (map g (insort_key f x ys)) = g x + sum_list (map g ys)" for x ys
    by (induction ys) simp_all
  then show ?thesis by (induction xs) simp_all
qed

lemma mset_sortDesc: "mset (sortDesc key xs) = mset xs"
  by (simp add: sortDesc_def)

lemma sum_sortDescStr: "sum_list (map g (sortDescStr key xs)) = sum_list (map g xs)"
  for g :: "'a \<Rightarrow> rat"
  by (simp add: sortDescStr_def rev_map[symmetric] sum_sort_key)

text \<open>
  \<open>trim\<close> at a name between a no-break space and an ideographic space, with a space inside;
  at a name with a tab and a line feed before it and a byte-order mark after it; and at a
  string of white space only.
\<close>

lemma trim_examples:
  "trim ([CHR 0xC2, CHR 0xA0] @ ''Oat milk'' @ [CHR 0xE3, CHR 0x80, CHR 0x80]) = ''Oat milk''"
  "trim ([CHR 0x09, CHR 0x0A] @ ''Eggs'' @ [CHR 0xEF, CHR 0xBB, CHR 0xBF, CHR 0x20]) = ''Eggs''"
  "trim [CHR 0x20, CHR 0xE2, CHR 0x80, CHR 0xA8, CHR 0x0D] = []"
  "trim [CHR 0xE2, CHR 0x80, CHR 0x8B] = [CHR 0xE2, CHR 0x80, CHR 0x8B]"
  by code_simp+

subsection \<open>Binary64 rounding\<close>

lemma pow2_pos: "0 < pow2 e"
  by (simp add: pow2_def)

lemma pow2_add: "pow2 (a + b) = pow2 a * pow2 b"
proof -
  have "pow2 e = 2 powi e" for e
    by (simp add: pow2_def power_int_def inverse_eq_divide power_one_over)
  then show ?thesis by (simp add: power_int_add)
qed

lemma pow2_nat: "0 \<le> e \<Longrightarrow> pow2 e = 2 ^ nat e"
  by (simp add: pow2_def)

lemma pow2_mono: "a \<le> b \<Longrightarrow> pow2 a \<le> pow2 b"
proof -
  assume "a \<le> b"
  then have "pow2 b = pow2 a * pow2 (b - a)" "0 \<le> b - a"
    using pow2_add[of a "b - a"] by simp_all
  moreover have "1 \<le> pow2 (b - a)"
    using \<open>0 \<le> b - a\<close> by (simp add: pow2_nat)
  ultimately show ?thesis
    using pow2_pos[of a] by (simp add: mult_le_cancel_left1)
qed

lemma pow2_less_imp: "pow2 a < pow2 b \<Longrightarrow> a < b"
  using pow2_mono[of b a] by (cases "a < b") auto

lemma ilog2_bounds:
  assumes "0 < x"
  shows "pow2 (ilog2 x) \<le> x \<and> x < pow2 (ilog2 x + 1)"
proof (cases "1 \<le> x")
  case True
  let ?n = "\<lfloor>x\<rfloor>"
  have n: "0 < ?n" using True by linarith
  note b = bitlen_bounds[OF n]
  have b1: "1 \<le> bitlen ?n"
    using n bitlen_eq_zero_iff[of ?n] bitlen_nonneg[of ?n] by linarith
  have e: "ilog2 x = bitlen ?n - 1"
    using True by (simp add: ilog2_def)
  have "pow2 (ilog2 x) = of_int (2 ^ nat (bitlen ?n - 1))"
    using b1 by (simp add: e pow2_nat)
  also have "\<dots> \<le> of_int ?n"
    using b by (simp only: of_int_le_iff)
  also have "\<dots> \<le> x" by simp
  finally have lo: "pow2 (ilog2 x) \<le> x" .
  have "?n + 1 \<le> 2 ^ nat (bitlen ?n)"
    using b by linarith
  then have "(of_int (?n + 1) :: rat) \<le> of_int (2 ^ nat (bitlen ?n))"
    by (simp only: of_int_le_iff)
  moreover have "x < of_int (?n + 1)"
    by linarith
  moreover have "pow2 (ilog2 x + 1) = of_int (2 ^ nat (bitlen ?n))"
    using b1 by (simp add: e pow2_nat)
  ultimately have "x < pow2 (ilog2 x + 1)" by linarith
  with lo show ?thesis by simp
next
  case False
  let ?y = "1 / x"
  let ?m = "\<lceil>?y\<rceil> - 1"
  have y1: "1 < ?y" using False assms by (simp add: field_simps)
  have m: "0 < ?m" using y1 by linarith
  note b = bitlen_bounds[OF m]
  have b1: "1 \<le> bitlen ?m"
    using m bitlen_eq_zero_iff[of ?m] bitlen_nonneg[of ?m] by linarith
  have e: "ilog2 x = - bitlen ?m"
    using False by (simp add: ilog2_def)
  have p: "pow2 (ilog2 x) = 1 / of_int (2 ^ nat (bitlen ?m))"
    using b1 by (simp add: e pow2_def)
  have p1: "pow2 (ilog2 x + 1) = 1 / of_int (2 ^ nat (bitlen ?m - 1))"
  proof (cases "bitlen ?m = 1")
    case True
    then show ?thesis by (simp add: e pow2_def)
  next
    case False
    then have "ilog2 x + 1 < 0" "- (ilog2 x + 1) = bitlen ?m - 1"
      using b1 e by simp_all
    then show ?thesis by (simp add: pow2_def)
  qed
  have "?m + 1 \<le> 2 ^ nat (bitlen ?m)"
    using b by linarith
  then have "(of_int (?m + 1) :: rat) \<le> of_int (2 ^ nat (bitlen ?m))"
    by (simp only: of_int_le_iff)
  moreover have "?y \<le> of_int (?m + 1)"
    by simp
  ultimately have "?y \<le> of_int (2 ^ nat (bitlen ?m))" by linarith
  then have lo: "pow2 (ilog2 x) \<le> x"
    unfolding p using assms by (simp add: field_simps)
  have "(of_int (2 ^ nat (bitlen ?m - 1)) :: rat) \<le> of_int ?m"
    using b by (simp only: of_int_le_iff)
  moreover have "of_int ?m < ?y"
    by linarith
  ultimately have "(of_int (2 ^ nat (bitlen ?m - 1)) :: rat) < ?y" by linarith
  then have "x < pow2 (ilog2 x + 1)"
    unfolding p1 using assms by (simp add: field_simps)
  with lo show ?thesis by simp
qed

lemma roundEven_error: "\<bar>of_int (roundEven y) - y\<bar> \<le> 1 / 2"
proof -
  have "of_int \<lfloor>y\<rfloor> \<le> y" "y < of_int \<lfloor>y\<rfloor> + 1" by linarith+
  then show ?thesis
    by (auto simp: roundEven_def Let_def abs_le_iff)
qed

lemma round64_error: "\<bar>round64 x - x\<bar> \<le> unitRoundoff * \<bar>x\<bar>"
proof (cases "x = 0")
  case True
  then show ?thesis by (simp add: round64_def)
next
  case False
  let ?e = "ilog2 \<bar>x\<bar>"
  let ?q = "pow2 (?e - 52)"
  have q: "0 < ?q" by (rule pow2_pos)
  have r: "round64 x = of_int (roundEven (x / ?q)) * ?q"
    using False by (simp add: round64_def Let_def)
  have "round64 x - x = (of_int (roundEven (x / ?q)) - x / ?q) * ?q"
    using q by (simp add: r field_simps)
  then have "\<bar>round64 x - x\<bar> = \<bar>of_int (roundEven (x / ?q)) - x / ?q\<bar> * ?q"
    using q by (simp add: abs_mult)
  also have "\<dots> \<le> 1 / 2 * ?q"
    using roundEven_error[of "x / ?q"] q by (simp add: mult_right_mono)
  also have "\<dots> = unitRoundoff * pow2 ?e"
    using pow2_add[of "?e - 52" 52] by (simp add: unitRoundoff_def pow2_nat)
  also have "\<dots> \<le> unitRoundoff * \<bar>x\<bar>"
    using ilog2_bounds[of "\<bar>x\<bar>"] False by (simp add: unitRoundoff_def)
  finally show ?thesis .
qed

lemma round64_zero: "round64 0 = 0"
  by (simp add: round64_def)

lemma unitRoundoff_bounds: "0 < unitRoundoff" "unitRoundoff < 1"
  by (simp_all add: unitRoundoff_def)

lemma round64_between:
  assumes "0 \<le> x"
  shows "(1 - unitRoundoff) * x \<le> round64 x \<and> round64 x \<le> (1 + unitRoundoff) * x"
  using round64_error[of x] assms by (simp add: abs_le_iff algebra_simps)

lemma round64_nonneg: "0 \<le> x \<Longrightarrow> 0 \<le> round64 x"
proof -
  assume x: "0 \<le> x"
  then have "0 \<le> (1 - unitRoundoff) * x"
    using unitRoundoff_bounds by simp
  then show ?thesis using round64_between[OF x] by linarith
qed

lemma round64_pos: "0 < x \<Longrightarrow> 0 < round64 x"
proof -
  assume x: "0 < x"
  then have "0 < (1 - unitRoundoff) * x"
    using unitRoundoff_bounds by simp
  then show ?thesis using round64_between[of x] x by linarith
qed

lemma ilog2_unique:
  assumes "pow2 a \<le> x" and "x < pow2 (a + 1)"
  shows "ilog2 x = a"
proof -
  have x: "0 < x" using assms(1) pow2_pos[of a] by linarith
  note b = ilog2_bounds[OF x]
  have "pow2 a < pow2 (ilog2 x + 1)" using assms(1) b by linarith
  then have 1: "a < ilog2 x + 1" by (rule pow2_less_imp)
  have "pow2 (ilog2 x) < pow2 (a + 1)" using assms(2) b by linarith
  then have 2: "ilog2 x < a + 1" by (rule pow2_less_imp)
  from 1 2 show ?thesis by simp
qed

lemma ilog2_mono:
  assumes "0 < x" and "x \<le> y"
  shows "ilog2 x \<le> ilog2 y"
proof -
  have "pow2 (ilog2 x) < pow2 (ilog2 y + 1)"
    using ilog2_bounds[OF assms(1)] ilog2_bounds[of y] assms by linarith
  then have "ilog2 x < ilog2 y + 1" by (rule pow2_less_imp)
  then show ?thesis by simp
qed

lemma roundEven_of_int: "roundEven (of_int k) = k"
  by (simp add: roundEven_def)

lemma roundEven_floor: "\<lfloor>y\<rfloor> \<le> roundEven y \<and> roundEven y \<le> \<lfloor>y\<rfloor> + 1"
  by (simp add: roundEven_def Let_def)

lemma roundEven_mono:
  assumes "y1 \<le> y2"
  shows "roundEven y1 \<le> roundEven y2"
proof (cases "\<lfloor>y1\<rfloor> = \<lfloor>y2\<rfloor>")
  case True
  then show ?thesis
    using assms by (auto simp: roundEven_def Let_def)
next
  case False
  then have "\<lfloor>y1\<rfloor> + 1 \<le> \<lfloor>y2\<rfloor>"
    using floor_mono[OF assms] by linarith
  then show ?thesis
    using roundEven_floor[of y1] roundEven_floor[of y2] by linarith
qed

lemma roundEven_minus: "roundEven (- y) = - roundEven y"
proof (cases "y = of_int \<lfloor>y\<rfloor>")
  case True
  then obtain k where "y = of_int k" ..
  then have "- y = of_int (- k)" by simp
  then show ?thesis
    using roundEven_of_int[of "- k"] roundEven_of_int[of k] \<open>y = of_int k\<close> by simp
next
  case False
  then have lt: "of_int \<lfloor>y\<rfloor> < y" by linarith
  have "\<lfloor>- y\<rfloor> = - \<lfloor>y\<rfloor> - 1"
    using lt by (intro floor_unique) (simp_all, linarith+)
  then show ?thesis
    using lt by (auto simp: roundEven_def Let_def)
qed

lemma round64_minus: "round64 (- x) = - round64 x"
  by (simp add: round64_def Let_def roundEven_minus)

lemma pow2_scale:
  "pow2 e = 2 ^ 52 * pow2 (e - 52)" "pow2 (e + 1) = 2 ^ 53 * pow2 (e - 52)"
proof -
  have "pow2 e = pow2 (52 + (e - 52))" by (rule arg_cong[of _ _ pow2]) simp
  also have "\<dots> = pow2 52 * pow2 (e - 52)" by (rule pow2_add)
  finally show "pow2 e = 2 ^ 52 * pow2 (e - 52)" by (simp add: pow2_nat)
  have "pow2 (e + 1) = pow2 (53 + (e - 52))" by (rule arg_cong[of _ _ pow2]) simp
  also have "\<dots> = pow2 53 * pow2 (e - 52)" by (rule pow2_add)
  finally show "pow2 (e + 1) = 2 ^ 53 * pow2 (e - 52)" by (simp add: pow2_nat)
qed

lemma round64_pos_eq:
  "0 < z \<Longrightarrow> round64 z = of_int (roundEven (z / pow2 (ilog2 z - 52))) * pow2 (ilog2 z - 52)"
  by (simp add: round64_def Let_def)

text \<open>The scaled value of a positive number lies in the binade of 53 bits.\<close>

lemma scaled_range:
  assumes "0 < x"
  shows "2 ^ 52 \<le> x / pow2 (ilog2 x - 52) \<and> x / pow2 (ilog2 x - 52) < 2 ^ 53"
proof -
  let ?e = "ilog2 x"
  note a = pow2_scale(1)[of ?e] and b = pow2_scale(2)[of ?e]
  show ?thesis
    using ilog2_bounds[OF assms] pow2_pos[of "?e - 52"]
    unfolding a b by (simp add: pos_le_divide_eq pos_divide_less_eq)
qed

lemma round64_range:
  assumes "0 < x"
  shows "pow2 (ilog2 x) \<le> round64 x \<and> round64 x \<le> pow2 (ilog2 x + 1)"
proof -
  let ?e = "ilog2 x"
  let ?q = "pow2 (?e - 52)"
  have q: "0 < ?q" by (rule pow2_pos)
  have r: "round64 x = of_int (roundEven (x / ?q)) * ?q"
    using assms by (simp add: round64_def Let_def)
  note s = scaled_range[OF assms]
  have "roundEven (of_int (2 ^ 52)) \<le> roundEven (x / ?q)"
    using s by (intro roundEven_mono) simp
  then have lo: "2 ^ 52 \<le> roundEven (x / ?q)"
    unfolding roundEven_of_int .
  have "roundEven (x / ?q) \<le> roundEven (of_int (2 ^ 53))"
    using s by (intro roundEven_mono) simp
  then have hi: "roundEven (x / ?q) \<le> 2 ^ 53"
    unfolding roundEven_of_int .
  note a = pow2_scale(1)[of ?e] and b = pow2_scale(2)[of ?e]
  have "(of_int (2 ^ 52) :: rat) \<le> of_int (roundEven (x / ?q))"
    using lo by (simp only: of_int_le_iff)
  then have 1: "pow2 ?e \<le> round64 x"
    unfolding a r using q by (simp add: mult_right_mono)
  have "(of_int (roundEven (x / ?q)) :: rat) \<le> of_int (2 ^ 53)"
    using hi by (simp only: of_int_le_iff)
  then have 2: "round64 x \<le> pow2 (?e + 1)"
    unfolding b r using q by (simp add: mult_right_mono)
  from 1 2 show ?thesis by simp
qed

lemma round64_mono_pos:
  assumes "0 < x" and "x \<le> y"
  shows "round64 x \<le> round64 y"
proof (cases "ilog2 x = ilog2 y")
  case True
  let ?q = "pow2 (ilog2 y - 52)"
  have q: "0 < ?q" by (rule pow2_pos)
  have y: "0 < y" using assms by linarith
  have "x / ?q \<le> y / ?q"
    using assms q by (simp add: divide_right_mono)
  then have "roundEven (x / ?q) \<le> roundEven (y / ?q)"
    by (rule roundEven_mono)
  then have "(of_int (roundEven (x / ?q)) :: rat) \<le> of_int (roundEven (y / ?q))"
    by (simp only: of_int_le_iff)
  then show ?thesis
    using assms y q True by (simp add: round64_def Let_def mult_right_mono)
next
  case False
  have y: "0 < y" using assms by linarith
  have "ilog2 x + 1 \<le> ilog2 y"
    using False ilog2_mono[OF assms] by linarith
  then have "pow2 (ilog2 x + 1) \<le> pow2 (ilog2 y)"
    by (rule pow2_mono)
  then show ?thesis
    using round64_range[OF assms(1)] round64_range[OF y] by linarith
qed

lemma round64_mono:
  assumes "x \<le> y"
  shows "round64 x \<le> round64 y"
proof -
  consider "0 < x" | "x \<le> 0" "0 \<le> y" | "y < 0" by linarith
  then show ?thesis
  proof cases
    case 1
    then show ?thesis using assms by (rule round64_mono_pos)
  next
    case 2
    have "round64 (- x) \<ge> 0" using 2 by (intro round64_nonneg) simp
    then have "round64 x \<le> 0" by (simp add: round64_minus)
    then show ?thesis using round64_nonneg[OF 2(2)] by linarith
  next
    case 3
    then have "0 < - y" "- y \<le> - x" using assms by simp_all
    then have "round64 (- y) \<le> round64 (- x)" by (rule round64_mono_pos)
    then show ?thesis by (simp add: round64_minus)
  qed
qed

lemma round64_idem_pos:
  assumes "0 < x"
  shows "round64 (round64 x) = round64 x"
proof -
  let ?e = "ilog2 x"
  let ?q = "pow2 (?e - 52)"
  let ?k = "roundEven (x / ?q)"
  have q: "0 < ?q" by (rule pow2_pos)
  have r: "round64 x = of_int ?k * ?q"
    using assms by (rule round64_pos_eq)
  have rp: "0 < round64 x" using assms by (rule round64_pos)
  note rng = round64_range[OF assms]
  show ?thesis
  proof (cases "round64 x < pow2 (?e + 1)")
    case True
    then have e: "ilog2 (round64 x) = ?e"
      using rng by (intro ilog2_unique) simp_all
    have d: "round64 x / ?q = of_int ?k"
      using q by (simp add: r)
    have "round64 (round64 x) = of_int (roundEven (round64 x / ?q)) * ?q"
      using round64_pos_eq[OF rp] unfolding e .
    also have "\<dots> = of_int ?k * ?q"
      unfolding d roundEven_of_int ..
    finally show ?thesis unfolding r .
  next
    case False
    let ?z = "pow2 (?e + 1)"
    have v: "round64 x = ?z" using False rng by linarith
    have zp: "0 < ?z" by (rule pow2_pos)
    have "?z < pow2 (?e + 1 + 1)"
      using pow2_add[of "?e + 1" 1] zp by (simp add: pow2_nat)
    then have e: "ilog2 ?z = ?e + 1"
      by (intro ilog2_unique) simp_all
    have sc: "?z = of_int (2 ^ 52) * pow2 (?e + 1 - 52)"
      using pow2_scale(1)[of "?e + 1"] by simp
    have d: "?z / pow2 (?e + 1 - 52) = of_int (2 ^ 52)"
      using pow2_pos[of "?e + 1 - 52"] by (subst sc) simp
    have "round64 ?z = of_int (roundEven (?z / pow2 (?e + 1 - 52))) * pow2 (?e + 1 - 52)"
      using round64_pos_eq[OF zp] unfolding e .
    also have "\<dots> = of_int (2 ^ 52) * pow2 (?e + 1 - 52)"
      unfolding d roundEven_of_int ..
    also have "\<dots> = ?z" using sc by simp
    finally show ?thesis unfolding v .
  qed
qed

lemma round64_idem: "round64 (round64 x) = round64 x"
proof -
  consider "0 < x" | "x = 0" | "0 < - x" by linarith
  then show ?thesis
  proof cases
    case 1
    then show ?thesis by (rule round64_idem_pos)
  next
    case 2
    then show ?thesis by (simp add: round64_zero)
  next
    case 3
    then have "round64 (round64 (- x)) = round64 (- x)" by (rule round64_idem_pos)
    then show ?thesis by (simp add: round64_minus)
  qed
qed

subsection \<open>Agreement up to rounding\<close>

lemma fadd_zero_left: "fadd 0 x = round64 x"
  by (simp add: fadd_def)

lemma powers_pos: "0 < (1 - unitRoundoff) ^ n" "0 < (1 + unitRoundoff) ^ n"
  "(1 - unitRoundoff) ^ n \<le> (1 + unitRoundoff) ^ n"
proof -
  show "0 < (1 - unitRoundoff) ^ n" "0 < (1 + unitRoundoff) ^ n"
    using unitRoundoff_bounds by simp_all
  show "(1 - unitRoundoff) ^ n \<le> (1 + unitRoundoff) ^ n"
    using unitRoundoff_bounds by (intro power_mono) simp_all
qed

lemma approx_refl: "0 \<le> x \<Longrightarrow> approx n x x"
  using powers_pos(3)[of n] by (simp add: approx_def mult_left_mono)

lemma approx_sym: "approx n x y \<Longrightarrow> approx n y x"
  by (simp add: approx_def)

lemma approx_zero_iff: "approx 0 x y \<longleftrightarrow> x = y"
  by (auto simp: approx_def)

lemma approx_Suc:
  assumes "0 \<le> x" and "0 \<le> y" and "approx n x y"
  shows "approx (Suc n) x y"
proof -
  have u: "0 < unitRoundoff" "unitRoundoff < 1" by (rule unitRoundoff_bounds)+
  have a: "z * (1 - unitRoundoff) ^ Suc n \<le> z * (1 - unitRoundoff) ^ n" if "0 \<le> z" for z
  proof -
    have "(1 - unitRoundoff) ^ Suc n \<le> (1 - unitRoundoff) ^ n"
      using u by (intro power_decreasing) simp_all
    then show ?thesis using that by (rule mult_left_mono)
  qed
  have b: "z * (1 + unitRoundoff) ^ n \<le> z * (1 + unitRoundoff) ^ Suc n" if "0 \<le> z" for z
  proof -
    have "(1 + unitRoundoff) ^ n \<le> (1 + unitRoundoff) ^ Suc n"
      using u by (intro power_increasing) simp_all
    then show ?thesis using that by (rule mult_left_mono)
  qed
  show ?thesis
    unfolding approx_def
    using a[OF assms(1)] a[OF assms(2)] b[OF assms(1)] b[OF assms(2)] assms(3)[unfolded approx_def]
    by linarith
qed

lemma approx_mono:
  assumes "0 \<le> x" and "0 \<le> y" and "approx n x y" and "n \<le> m"
  shows "approx m x y"
  using assms(4)
proof (induction m)
  case 0
  then show ?case using assms(3) by simp
next
  case (Suc m)
  show ?case
  proof (cases "n = Suc m")
    case True
    then show ?thesis using assms(3) by simp
  next
    case False
    then have "approx m x y" using Suc by simp
    then show ?thesis using assms(1,2) by (intro approx_Suc)
  qed
qed

lemma approx_trans:
  assumes "approx n x y" and "approx m y z"
  shows "approx (n + m) x z"
proof -
  let ?a = "1 - unitRoundoff" and ?b = "1 + unitRoundoff"
  have p: "0 \<le> ?a ^ n" "0 \<le> ?a ^ m" "0 \<le> ?b ^ n" "0 \<le> ?b ^ m"
    using powers_pos[of n] powers_pos[of m] by simp_all
  have 1: "x * ?a ^ (n + m) \<le> z * ?b ^ (n + m)"
  proof -
    have "x * ?a ^ (n + m) = (x * ?a ^ n) * ?a ^ m" by (simp add: power_add)
    also have "\<dots> \<le> (y * ?b ^ n) * ?a ^ m"
      using assms(1) p by (simp add: approx_def mult_right_mono)
    also have "\<dots> = (y * ?a ^ m) * ?b ^ n" by simp
    also have "\<dots> \<le> (z * ?b ^ m) * ?b ^ n"
      using assms(2) p by (simp add: approx_def mult_right_mono)
    also have "\<dots> = z * ?b ^ (n + m)" by (simp add: power_add)
    finally show ?thesis .
  qed
  have 2: "z * ?a ^ (n + m) \<le> x * ?b ^ (n + m)"
  proof -
    have "z * ?a ^ (n + m) = (z * ?a ^ m) * ?a ^ n" by (simp add: power_add)
    also have "\<dots> \<le> (y * ?b ^ m) * ?a ^ n"
      using assms(2) p by (simp add: approx_def mult_right_mono)
    also have "\<dots> = (y * ?a ^ n) * ?b ^ m" by simp
    also have "\<dots> \<le> (x * ?b ^ n) * ?b ^ m"
      using assms(1) p by (simp add: approx_def mult_right_mono)
    also have "\<dots> = x * ?b ^ (n + m)" by (simp add: power_add)
    finally show ?thesis .
  qed
  from 1 2 show ?thesis by (simp add: approx_def)
qed

lemma approx_add:
  assumes "approx n x1 y1" and "approx n x2 y2"
  shows "approx n (x1 + x2) (y1 + y2)"
  using assms by (simp add: approx_def distrib_right)

lemma approx_round: "0 \<le> x \<Longrightarrow> approx 1 x (round64 x)"
proof -
  assume x: "0 \<le> x"
  have u: "0 < unitRoundoff" "unitRoundoff < 1" by (rule unitRoundoff_bounds)+
  note b = round64_between[OF x]
  have r: "0 \<le> round64 x" using x by (rule round64_nonneg)
  have 1: "x * (1 - unitRoundoff) \<le> round64 x * (1 + unitRoundoff)"
  proof -
    have "x * (1 - unitRoundoff) \<le> round64 x" using b by (simp add: mult.commute)
    also have "\<dots> \<le> round64 x * (1 + unitRoundoff)"
      using r u by (simp add: mult_le_cancel_left1)
    finally show ?thesis .
  qed
  have 2: "round64 x * (1 - unitRoundoff) \<le> x * (1 + unitRoundoff)"
  proof -
    have "round64 x * (1 - unitRoundoff) \<le> round64 x"
      using r u by (simp add: mult_le_cancel_left2)
    also have "\<dots> \<le> x * (1 + unitRoundoff)" using b by (simp add: mult.commute)
    finally show ?thesis .
  qed
  from 1 2 show ?thesis by (simp add: approx_def)
qed

text \<open>
  One addition into one of several accumulators that are not negative: \<open>W\<close> is the sum of all
  accumulators, \<open>v\<close> the one that receives \<open>x\<close>, and \<open>E\<close> the exact sum of what was added so far.
\<close>

lemma approx_accumulate:
  assumes "approx n E W" and "0 \<le> v" and "v \<le> W" and "0 \<le> x"
  shows "approx (Suc n) (E + x) (W - v + fadd v x)"
proof -
  have "approx 1 (v + x) (fadd v x)"
    unfolding fadd_def using assms(2,4) by (intro approx_round) simp
  moreover have "approx 1 (W - v) (W - v)"
    using assms(3) by (intro approx_refl) simp
  ultimately have a: "approx 1 (W + x) (W - v + fadd v x)"
    using approx_add[of 1 "W - v" "W - v" "v + x" "fadd v x"] by (simp add: algebra_simps)
  have "approx n (E + x) (W + x)"
    using assms(1) approx_refl[OF assms(4), of n] by (rule approx_add)
  then have "approx (n + 1) (E + x) (W - v + fadd v x)"
    using a by (rule approx_trans)
  then show ?thesis by simp
qed

subsection \<open>Totals and monthly history\<close>

lemma historyStep_fold_keys:
  "fst ` set (foldl historyStep m ts) = fst ` set m \<union> monthKey ` set ts"
  by (induction ts arbitrary: m) (auto simp: historyStep_def Let_def keys_mapSet)

lemma value_le_sum:
  fixes g :: "'v \<Rightarrow> rat"
  assumes "\<forall>e \<in> set m. 0 \<le> g (snd e)" and "map_of m k = Some w"
  shows "g w \<le> sum_list (map (\<lambda>e. g (snd e)) m)"
  using assms
proof (induction m)
  case Nil
  then show ?case by simp
next
  case (Cons p m)
  have rest: "0 \<le> sum_list (map (\<lambda>e. g (snd e)) m)"
    using Cons.prems(1) by (intro sum_list_nonneg) auto
  show ?case
  proof (cases "fst p = k")
    case True
    then have "snd p = w" using Cons.prems(2) by (cases p) simp
    then show ?thesis using rest by simp
  next
    case False
    then have "map_of m k = Some w" using Cons.prems(2) by (cases p) simp
    then have "g w \<le> sum_list (map (\<lambda>e. g (snd e)) m)"
      using Cons.IH Cons.prems(1) by simp
    moreover have "0 \<le> g (snd p)" using Cons.prems(1) by simp
    ultimately show ?thesis by simp
  qed
qed

lemma set_mapSet: "set (mapSet k v m) \<subseteq> insert (k, v) (set m)"
  by (induction m) auto

text \<open>
  The state of the loop of \<open>monthlyHistory\<close>: every income and expense in the map is at least 0.
\<close>

lemma historyStep_nonneg:
  assumes "\<forall>e \<in> set m. 0 \<le> fst (snd e) \<and> 0 \<le> snd (snd e)" and "0 \<le> amountAUD t"
  shows "\<forall>e \<in> set (historyStep m t). 0 \<le> fst (snd e) \<and> 0 \<le> snd (snd e)"
proof (cases "map_of m (monthKey t)")
  case None
  have "0 \<le> fadd 0 (amountAUD t)"
    unfolding fadd_def using assms(2) by (intro round64_nonneg) simp
  then show ?thesis
    using assms(1) None set_mapSet[of "monthKey t" _ "mapSet (monthKey t) (0, 0) m"]
      set_mapSet[of "monthKey t" "(0, 0)" m]
    by (auto simp: historyStep_def Let_def map_of_mapSet) (fastforce+)
next
  case (Some w)
  then have w: "0 \<le> fst w" "0 \<le> snd w"
    using assms(1) by (auto dest!: map_of_SomeD)
  have "0 \<le> fadd (fst w) (amountAUD t)" "0 \<le> fadd (snd w) (amountAUD t)"
    unfolding fadd_def using assms(2) w by (intro round64_nonneg; simp)+
  then show ?thesis
    using assms(1) Some w set_mapSet[of "monthKey t" _ m]
    by (auto simp: historyStep_def Let_def) (fastforce+)
qed

lemma historyStep_income_sum:
  "sum_list (map (\<lambda>e. fst (snd e)) (historyStep m t)) =
     sum_list (map (\<lambda>e. fst (snd e)) m)
     - (case map_of m (monthKey t) of None \<Rightarrow> 0 | Some w \<Rightarrow> fst w)
     + (if typeT t = income
        then fadd (case map_of m (monthKey t) of None \<Rightarrow> 0 | Some w \<Rightarrow> fst w) (amountAUD t)
        else (case map_of m (monthKey t) of None \<Rightarrow> 0 | Some w \<Rightarrow> fst w))"
  by (cases "map_of m (monthKey t)")
     (simp_all add: historyStep_def Let_def sum_mapSet_gen[where g = fst] map_of_mapSet)

lemma historyStep_expense_sum:
  "sum_list (map (\<lambda>e. snd (snd e)) (historyStep m t)) =
     sum_list (map (\<lambda>e. snd (snd e)) m)
     - (case map_of m (monthKey t) of None \<Rightarrow> 0 | Some w \<Rightarrow> snd w)
     + (if typeT t \<noteq> income
        then fadd (case map_of m (monthKey t) of None \<Rightarrow> 0 | Some w \<Rightarrow> snd w) (amountAUD t)
        else (case map_of m (monthKey t) of None \<Rightarrow> 0 | Some w \<Rightarrow> snd w))"
  by (cases "map_of m (monthKey t)")
     (simp_all add: historyStep_def Let_def sum_mapSet_gen[where g = snd] map_of_mapSet)

lemma slot_bounds:
  fixes g :: "'v \<Rightarrow> rat"
  assumes "\<forall>e \<in> set m. 0 \<le> g (snd e)"
  shows "0 \<le> (case map_of m k of None \<Rightarrow> 0 | Some w \<Rightarrow> g w)
    \<and> (case map_of m k of None \<Rightarrow> 0 | Some w \<Rightarrow> g w) \<le> sum_list (map (\<lambda>e. g (snd e)) m)"
proof (cases "map_of m k")
  case None
  have "0 \<le> sum_list (map (\<lambda>e. g (snd e)) m)"
    using assms by (intro sum_list_nonneg) auto
  then show ?thesis using None by simp
next
  case (Some w)
  then have "0 \<le> g w" using assms by (auto dest!: map_of_SomeD)
  then show ?thesis using Some value_le_sum[OF assms Some] by simp
qed

lemma historyStep_income_approx:
  assumes "\<forall>e \<in> set m. 0 \<le> fst (snd e) \<and> 0 \<le> snd (snd e)" and "0 \<le> amountAUD t"
    and "0 \<le> E" and "approx n E (sum_list (map (\<lambda>e. fst (snd e)) m))"
  shows "approx (Suc n) (E + incomeShare t) (sum_list (map (\<lambda>e. fst (snd e)) (historyStep m t)))"
proof -
  let ?v = "case map_of m (monthKey t) of None \<Rightarrow> 0 | Some w \<Rightarrow> fst w"
  let ?W = "sum_list (map (\<lambda>e. fst (snd e)) m)"
  have nn: "\<forall>e \<in> set m. 0 \<le> fst (snd e)" using assms(1) by simp
  note b = slot_bounds[OF nn, of "monthKey t"]
  show ?thesis
  proof (cases "typeT t = income")
    case True
    have "approx (Suc n) (E + amountAUD t) (?W - ?v + fadd ?v (amountAUD t))"
      using assms(4) b assms(2) by (intro approx_accumulate) simp_all
    then show ?thesis
      using True by (simp add: historyStep_income_sum incomeShare_def)
  next
    case False
    have "0 \<le> ?W" using b by linarith
    then have "approx (Suc n) E ?W"
      using assms(3,4) by (intro approx_Suc)
    then show ?thesis
      using False by (simp add: historyStep_income_sum incomeShare_def)
  qed
qed

lemma historyStep_expense_approx:
  assumes "\<forall>e \<in> set m. 0 \<le> fst (snd e) \<and> 0 \<le> snd (snd e)" and "0 \<le> amountAUD t"
    and "0 \<le> E" and "approx n E (sum_list (map (\<lambda>e. snd (snd e)) m))"
  shows "approx (Suc n) (E + expenseShare t) (sum_list (map (\<lambda>e. snd (snd e)) (historyStep m t)))"
proof -
  let ?v = "case map_of m (monthKey t) of None \<Rightarrow> 0 | Some w \<Rightarrow> snd w"
  let ?W = "sum_list (map (\<lambda>e. snd (snd e)) m)"
  have nn: "\<forall>e \<in> set m. 0 \<le> snd (snd e)" using assms(1) by simp
  note b = slot_bounds[OF nn, of "monthKey t"]
  show ?thesis
  proof (cases "typeT t \<noteq> income")
    case True
    have "approx (Suc n) (E + amountAUD t) (?W - ?v + fadd ?v (amountAUD t))"
      using assms(4) b assms(2) by (intro approx_accumulate) simp_all
    then show ?thesis
      using True by (simp add: historyStep_expense_sum expenseShare_def)
  next
    case False
    have "0 \<le> ?W" using b by linarith
    then have "approx (Suc n) E ?W"
      using assms(3,4) by (intro approx_Suc)
    then show ?thesis
      using False by (simp add: historyStep_expense_sum expenseShare_def)
  qed
qed

lemma share_nonneg: "0 \<le> amountAUD t \<Longrightarrow> 0 \<le> incomeShare t \<and> 0 \<le> expenseShare t"
  by (simp add: incomeShare_def expenseShare_def)

lemma historyStep_fold_approx:
  assumes "\<forall>t \<in> set ts. 0 \<le> amountAUD t"
    and "\<forall>e \<in> set m. 0 \<le> fst (snd e) \<and> 0 \<le> snd (snd e)"
    and "0 \<le> Ei" and "approx n Ei (sum_list (map (\<lambda>e. fst (snd e)) m))"
    and "0 \<le> Ee" and "approx n Ee (sum_list (map (\<lambda>e. snd (snd e)) m))"
  shows "approx (n + length ts) (Ei + sum_list (map incomeShare ts))
           (sum_list (map (\<lambda>e. fst (snd e)) (foldl historyStep m ts)))
       \<and> approx (n + length ts) (Ee + sum_list (map expenseShare ts))
           (sum_list (map (\<lambda>e. snd (snd e)) (foldl historyStep m ts)))"
  using assms
proof (induction ts arbitrary: m n Ei Ee)
  case Nil
  then show ?case by simp
next
  case (Cons t ts)
  have a: "0 \<le> amountAUD t" using Cons.prems(1) by simp
  note s = share_nonneg[OF a]
  have 1: "\<forall>e \<in> set (historyStep m t). 0 \<le> fst (snd e) \<and> 0 \<le> snd (snd e)"
    using Cons.prems(2) a by (rule historyStep_nonneg)
  have 2: "approx (Suc n) (Ei + incomeShare t)
      (sum_list (map (\<lambda>e. fst (snd e)) (historyStep m t)))"
    using Cons.prems(2) a Cons.prems(3,4) by (rule historyStep_income_approx)
  have 3: "approx (Suc n) (Ee + expenseShare t)
      (sum_list (map (\<lambda>e. snd (snd e)) (historyStep m t)))"
    using Cons.prems(2) a Cons.prems(5,6) by (rule historyStep_expense_approx)
  have "approx (Suc n + length ts) (Ei + incomeShare t + sum_list (map incomeShare ts))
           (sum_list (map (\<lambda>e. fst (snd e)) (foldl historyStep (historyStep m t) ts)))
       \<and> approx (Suc n + length ts) (Ee + expenseShare t + sum_list (map expenseShare ts))
           (sum_list (map (\<lambda>e. snd (snd e)) (foldl historyStep (historyStep m t) ts)))"
  proof (rule Cons.IH)
    show "\<forall>t \<in> set ts. 0 \<le> amountAUD t" using Cons.prems(1) by simp
    show "\<forall>e \<in> set (historyStep m t). 0 \<le> fst (snd e) \<and> 0 \<le> snd (snd e)" by (rule 1)
    show "0 \<le> Ei + incomeShare t" using Cons.prems(3) s by simp
    show "0 \<le> Ee + expenseShare t" using Cons.prems(5) s by simp
    show "approx (Suc n) (Ei + incomeShare t)
      (sum_list (map (\<lambda>e. fst (snd e)) (historyStep m t)))" by (rule 2)
    show "approx (Suc n) (Ee + expenseShare t)
      (sum_list (map (\<lambda>e. snd (snd e)) (historyStep m t)))" by (rule 3)
  qed
  then show ?case by (simp add: add.assoc)
qed

text \<open>A left fold of \<open>+\<close> from 0 over numbers that are not negative.\<close>

lemma fadd_fold_approx:
  assumes "\<forall>x \<in> set xs. 0 \<le> x" and "0 \<le> a" and "0 \<le> E" and "approx n E a"
  shows "approx (n + length xs) (E + sum_list xs) (foldl fadd a xs) \<and> 0 \<le> foldl fadd a xs"
  using assms
proof (induction xs arbitrary: a n E)
  case Nil
  then show ?case by simp
next
  case (Cons x xs)
  have x: "0 \<le> x" using Cons.prems(1) by simp
  have "approx (Suc n) (E + x) (a - a + fadd a x)"
    using Cons.prems(4,2) x by (intro approx_accumulate) simp_all
  then have 1: "approx (Suc n) (E + x) (fadd a x)" by simp
  have 2: "0 \<le> fadd a x"
    unfolding fadd_def using Cons.prems(2) x by (intro round64_nonneg) simp
  have "approx (Suc n + length xs) (E + x + sum_list xs) (foldl fadd (fadd a x) xs)
      \<and> 0 \<le> foldl fadd (fadd a x) xs"
  proof (rule Cons.IH)
    show "\<forall>x \<in> set xs. 0 \<le> x" using Cons.prems(1) by simp
    show "0 \<le> fadd a x" by (rule 2)
    show "0 \<le> E + x" using Cons.prems(3) x by simp
    show "approx (Suc n) (E + x) (fadd a x)" by (rule 1)
  qed
  then show ?case by (simp add: add.assoc)
qed

lemma foldl_fadd_map: "foldl (\<lambda>s t. fadd s (f t)) a ts = foldl fadd a (map f ts)"
  by (induction ts arbitrary: a) simp_all

lemma sum_filter_share:
  "sum_list (map amountAUD (filter P ts)) = sum_list (map (\<lambda>t. if P t then amountAUD t else 0) ts)"
  by (induction ts) simp_all

lemma totalIncomeAUD_approx:
  assumes "\<forall>t \<in> set ts. 0 \<le> amountAUD t"
  shows "approx (length ts) (sum_list (map incomeShare ts)) (totalIncomeAUD ts)
    \<and> 0 \<le> totalIncomeAUD ts"
proof -
  let ?xs = "map amountAUD (incomeTransactions ts)"
  have nn: "\<forall>x \<in> set ?xs. 0 \<le> x"
    using assms by (auto simp: incomeTransactions_def)
  have "approx (0 + length ?xs) (0 + sum_list ?xs) (foldl fadd 0 ?xs) \<and> 0 \<le> foldl fadd 0 ?xs"
    by (rule fadd_fold_approx[OF nn]) (simp_all add: approx_zero_iff)
  then have a: "approx (length ?xs) (sum_list ?xs) (totalIncomeAUD ts)" "0 \<le> totalIncomeAUD ts"
    by (simp_all add: totalIncomeAUD_def foldl_fadd_map[of amountAUD])
  have s: "sum_list ?xs = sum_list (map incomeShare ts)"
    by (simp add: incomeTransactions_def sum_filter_share incomeShare_def[abs_def])
  have "0 \<le> sum_list (map incomeShare ts)"
    using assms by (intro sum_list_nonneg) (auto simp: incomeShare_def)
  then have "approx (length ts) (sum_list (map incomeShare ts)) (totalIncomeAUD ts)"
    using a(2) a(1)[unfolded s] by (rule approx_mono) (simp add: incomeTransactions_def)
  then show ?thesis using a(2) by simp
qed

lemma totalExpenseAUD_approx:
  assumes "\<forall>t \<in> set ts. 0 \<le> amountAUD t"
  shows "approx (length ts) (sum_list (map expenseShare ts)) (totalExpenseAUD ts)
    \<and> 0 \<le> totalExpenseAUD ts"
proof -
  let ?xs = "map amountAUD (expenseTransactions ts)"
  have nn: "\<forall>x \<in> set ?xs. 0 \<le> x"
    using assms by (auto simp: expenseTransactions_def)
  have "approx (0 + length ?xs) (0 + sum_list ?xs) (foldl fadd 0 ?xs) \<and> 0 \<le> foldl fadd 0 ?xs"
    by (rule fadd_fold_approx[OF nn]) (simp_all add: approx_zero_iff)
  then have a: "approx (length ?xs) (sum_list ?xs) (totalExpenseAUD ts)" "0 \<le> totalExpenseAUD ts"
    by (simp_all add: totalExpenseAUD_def foldl_fadd_map[of amountAUD])
  have s: "sum_list ?xs = sum_list (map expenseShare ts)"
    by (simp add: expenseTransactions_def sum_filter_share expenseShare_def[abs_def])
  have "0 \<le> sum_list (map expenseShare ts)"
    using assms by (intro sum_list_nonneg) (auto simp: expenseShare_def)
  then have "approx (length ts) (sum_list (map expenseShare ts)) (totalExpenseAUD ts)"
    using a(2) a(1)[unfolded s] by (rule approx_mono) (simp add: expenseTransactions_def)
  then show ?thesis using a(2) by simp
qed

lemma monthlyHistory_sums:
  "sum_list (map incomeH (monthlyHistory ts)) =
     sum_list (map (\<lambda>e. fst (snd e)) (foldl historyStep [] ts))"
  "sum_list (map expenseH (monthlyHistory ts)) =
     sum_list (map (\<lambda>e. snd (snd e)) (foldl historyStep [] ts))"
  by (simp_all add: monthlyHistory_def Let_def comp_def sum_sortDescStr)

subsection \<open>The loops of the drill-down\<close>

text \<open>The inner loop: the running sum, and the bucket of each name.\<close>

lemma itemStep_fold_sum:
  "snd (foldl itemStep (m, s) its) = foldl fadd s (map price its)"
  by (induction its arbitrary: m s) (simp_all add: itemStep_def Let_def)

lemma itemStep_fold_bucket:
  "getOr0 (fst (foldl itemStep (m, s) its)) n = foldl fadd (getOr0 m n) (namedPrices n its)"
  by (induction its arbitrary: m s)
     (simp_all add: itemStep_def Let_def namedPrices_def getOr0_mapSet)

lemma itemStep_fold_keys:
  "fst ` set (fst (foldl itemStep (m, s) its)) = fst ` set m \<union> (\<lambda>i. trim (name i)) ` set its"
  by (induction its arbitrary: m s) (auto simp: itemStep_def Let_def keys_mapSet)

lemma itemStep_fold_distinct:
  "distinct (map fst (fst (foldl itemStep (m, s) its))) = distinct (map fst m)"
  by (induction its arbitrary: m s) (simp_all add: itemStep_def Let_def distinct_mapSet)

lemma length_mapSet: "length (mapSet k v m) \<le> Suc (length m)"
  by (induction m) auto

lemma itemStep_fold_length:
  "length (fst (foldl itemStep (m, s) its)) \<le> length m + length its"
proof (induction its arbitrary: m s)
  case Nil
  then show ?case by simp
next
  case (Cons i its)
  have "length (fst (foldl itemStep (itemStep (m, s) i) its))
      \<le> length (fst (itemStep (m, s) i)) + length its"
    using Cons.IH[of "fst (itemStep (m, s) i)" "snd (itemStep (m, s) i)"] by simp
  moreover have "length (fst (itemStep (m, s) i)) \<le> Suc (length m)"
    by (simp add: itemStep_def Let_def length_mapSet)
  ultimately show ?case by simp
qed

text \<open>One transaction, in the vocabulary of the statements.\<close>

lemma txStep_fst:
  "fst (txStep st t) = fst (foldl itemStep (fst st, 0) (itemsOf t))"
  by (simp add: txStep_def itemsOf_def Let_def split: option.split)

lemma txStep_snd:
  "snd (txStep st t) = (if addsToManual t then fadd (snd st) (manualShareF t) else snd st)"
  by (simp add: txStep_def itemsOf_def hasItems_def addsToManual_def manualShareF_def
      passesGuard_def remainderF_def itemsSumF_def itemStep_fold_sum Let_def split: option.split)

lemma txStep_bucket:
  "getOr0 (fst (txStep st t)) n = foldl fadd (getOr0 (fst st) n) (namedPrices n (itemsOf t))"
  by (simp add: txStep_fst itemStep_fold_bucket)

lemma txStep_keys:
  "fst ` set (fst (txStep st t)) = fst ` set (fst st) \<union> (\<lambda>i. trim (name i)) ` set (itemsOf t)"
  by (simp add: txStep_fst itemStep_fold_keys)

lemma txStep_distinct:
  "distinct (map fst (fst (txStep st t))) = distinct (map fst (fst st))"
  by (simp add: txStep_fst itemStep_fold_distinct)

text \<open>The whole loop.\<close>

lemma txStep_fold_bucket:
  "getOr0 (fst (foldl txStep st rel)) n =
     foldl fadd (getOr0 (fst st) n) (concat (map (\<lambda>t. namedPrices n (itemsOf t)) rel))"
  by (induction rel arbitrary: st) (simp_all add: txStep_bucket)

lemma txStep_fold_manual:
  "snd (foldl txStep st rel) = foldl fadd (snd st) (map manualShareF (filter addsToManual rel))"
  by (induction rel arbitrary: st) (simp_all add: txStep_snd)

lemma txStep_fold_keys:
  "fst ` set (fst (foldl txStep st rel)) =
     fst ` set (fst st) \<union> (\<Union>t \<in> set rel. (\<lambda>i. trim (name i)) ` set (itemsOf t))"
  by (induction rel arbitrary: st) (auto simp: txStep_keys)

lemma txStep_fold_distinct:
  "distinct (map fst (fst (foldl txStep st rel))) = distinct (map fst (fst st))"
  by (induction rel arbitrary: st) (simp_all add: txStep_distinct)

text \<open>A sum of at least one rounded addition is a double; so is \<open>0\<close>.\<close>

lemma foldl_fadd_double: "round64 a = a \<Longrightarrow> round64 (foldl fadd a xs) = foldl fadd a xs"
  by (induction xs arbitrary: a) (simp_all add: fadd_def round64_idem)

lemma itemsSumF_double: "round64 (itemsSumF t) = itemsSumF t"
  unfolding itemsSumF_def by (rule foldl_fadd_double) (simp add: round64_zero)

lemma toDouble_tenth_pos: "0 < toDouble (1 / 10)"
  unfolding toDouble_def by (rule round64_pos) simp

text \<open>A receipt that passes the test of line 102 has a remainder above \<open>0\<close>.\<close>

lemma passesGuard_gap: "passesGuard t \<Longrightarrow> itemsSumF t < amountAUD t"
proof -
  assume g: "passesGuard t"
  have "itemsSumF t \<le> itemsSumF t + toDouble (1 / 10)" using toDouble_tenth_pos by simp
  then have "round64 (itemsSumF t) \<le> round64 (itemsSumF t + toDouble (1 / 10))"
    by (rule round64_mono)
  then have "itemsSumF t \<le> fadd (itemsSumF t) (toDouble (1 / 10))"
    by (simp add: itemsSumF_double fadd_def)
  then show ?thesis using g by (simp add: passesGuard_def)
qed

lemma passesGuard_remainder: "passesGuard t \<Longrightarrow> 0 < remainderF t"
  unfolding remainderF_def fsub_def by (rule round64_pos) (simp add: passesGuard_gap)

text \<open>The output for a selected category: the named buckets, then the manual bucket, sorted.\<close>

lemma itemizedData_unfold:
  assumes "c \<noteq> []"
  shows "itemizedData (Some c) filtered =
     sortDesc snd (itemMapOf (relevantTransactions c filtered) @
       (if manualEntryTotal (relevantTransactions c filtered) > toDouble (1 / 100)
        then [(manualLabel, manualEntryTotal (relevantTransactions c filtered))] else []))"
  using assms
  by (simp add: itemizedData_def relevantTransactions_def itemMapOf_def manualEntryTotal_def Let_def)

lemma sorted_sortDesc: "sorted_wrt (\<lambda>a b. key b \<le> key a) (sortDesc key xs)"
  for key :: "'a \<Rightarrow> rat"
proof -
  have "sorted (map (\<lambda>x. - key x) (sort_key (\<lambda>x. - key x) xs))" by (rule sorted_sort_key)
  then show ?thesis by (simp add: sortDesc_def sorted_map)
qed

text \<open>
  The mass of the state, the sum of all buckets and of the manual total, follows the exact sum
  of what the loop has added, one rounding for each addition.
\<close>

lemma getOr0_bounds:
  assumes "\<forall>e \<in> set m. 0 \<le> snd e"
  shows "0 \<le> getOr0 m k \<and> getOr0 m k \<le> sum_list (map snd m)"
  using slot_bounds[where g = "\<lambda>x. x", OF assms, of k] by (simp add: getOr0_def)

lemma sum_mapSet: "sum_list (map snd (mapSet k v m)) = sum_list (map snd m) - getOr0 m k + v"
  using sum_mapSet_gen[where g = "\<lambda>x. x", of k v m] by (simp add: getOr0_def)

lemma buckets_sum_nonneg: "\<forall>e \<in> set m. 0 \<le> snd e \<Longrightarrow> 0 \<le> sum_list (map snd m)"
  for m :: "(string \<times> rat) list"
  by (induction m) auto

lemma itemStep_nonneg:
  assumes "\<forall>e \<in> set m. 0 \<le> snd e" and "0 \<le> price i"
  shows "\<forall>e \<in> set (fst (itemStep (m, s) i)). 0 \<le> snd e"
proof -
  have "0 \<le> getOr0 m (trim (name i)) + price i"
    using getOr0_bounds[OF assms(1), of "trim (name i)"] assms(2) by simp
  then have "0 \<le> fadd (getOr0 m (trim (name i))) (price i)"
    unfolding fadd_def by (rule round64_nonneg)
  then show ?thesis
    using assms(1) set_mapSet[of "trim (name i)" "fadd (getOr0 m (trim (name i))) (price i)" m]
    by (auto simp: itemStep_def Let_def)
qed

lemma itemStep_mass:
  assumes "\<forall>e \<in> set m. 0 \<le> snd e" and "0 \<le> price i" and "0 \<le> M"
    and "approx n E (sum_list (map snd m) + M)"
  shows "approx (Suc n) (E + price i) (sum_list (map snd (fst (itemStep (m, s) i))) + M)"
proof -
  let ?k = "trim (name i)"
  note b = getOr0_bounds[OF assms(1), of ?k]
  have "approx (Suc n) (E + price i)
      (sum_list (map snd m) + M - getOr0 m ?k + fadd (getOr0 m ?k) (price i))"
    by (rule approx_accumulate[OF assms(4)]) (use b assms(2,3) in simp_all)
  then show ?thesis by (simp add: itemStep_def Let_def sum_mapSet algebra_simps)
qed

lemma itemStep_fold_mass:
  assumes "\<forall>i \<in> set its. 0 \<le> price i" and "\<forall>e \<in> set m. 0 \<le> snd e" and "0 \<le> M"
    and "approx n E (sum_list (map snd m) + M)"
  shows "approx (n + length its) (E + sum_list (map price its))
           (sum_list (map snd (fst (foldl itemStep (m, s) its))) + M)
       \<and> (\<forall>e \<in> set (fst (foldl itemStep (m, s) its)). 0 \<le> snd e)"
  using assms
proof (induction its arbitrary: m s n E)
  case Nil
  then show ?case by simp
next
  case (Cons i its)
  let ?st = "itemStep (m, s) i"
  have p: "0 \<le> price i" and ps: "\<forall>i \<in> set its. 0 \<le> price i" using Cons.prems(1) by simp_all
  have nn: "\<forall>e \<in> set (fst ?st). 0 \<le> snd e" by (rule itemStep_nonneg[OF Cons.prems(2) p])
  have a: "approx (Suc n) (E + price i) (sum_list (map snd (fst ?st)) + M)"
    by (rule itemStep_mass[OF Cons.prems(2) p Cons.prems(3,4)])
  have "approx (Suc n + length its) (E + price i + sum_list (map price its))
           (sum_list (map snd (fst (foldl itemStep (fst ?st, snd ?st) its))) + M)
       \<and> (\<forall>e \<in> set (fst (foldl itemStep (fst ?st, snd ?st) its)). 0 \<le> snd e)"
    by (rule Cons.IH[OF ps nn Cons.prems(3) a])
  then show ?case by (simp add: add.assoc)
qed

lemma itemsSumF_approx:
  assumes "\<forall>i \<in> set (itemsOf t). 0 \<le> price i"
  shows "approx (length (itemsOf t)) (itemsSum t) (itemsSumF t) \<and> 0 \<le> itemsSumF t"
proof -
  let ?xs = "map price (itemsOf t)"
  have nn: "\<forall>x \<in> set ?xs. 0 \<le> x" using assms by simp
  have "approx (0 + length ?xs) (0 + sum_list ?xs) (foldl fadd 0 ?xs) \<and> 0 \<le> foldl fadd 0 ?xs"
    by (rule fadd_fold_approx[OF nn]) (simp_all add: approx_zero_iff)
  then show ?thesis by (simp add: itemsSum_def itemsSumF_def)
qed

lemma itemsSum_nonneg: "\<forall>i \<in> set (itemsOf t). 0 \<le> price i \<Longrightarrow> 0 \<le> itemsSum t"
  unfolding itemsSum_def by (rule sum_list_nonneg) auto

lemma bucketShare_nonneg:
  assumes "0 \<le> amountAUD t" and "\<forall>i \<in> set (itemsOf t). 0 \<le> price i"
  shows "0 \<le> bucketShare t"
  using assms itemsSum_nonneg[OF assms(2)] passesGuard_remainder[of t]
  by (auto simp: bucketShare_def intro: add_nonneg_nonneg less_imp_le)

lemma txStep_mass:
  assumes "0 \<le> amountAUD t" and "\<forall>i \<in> set (itemsOf t). 0 \<le> price i"
    and "\<forall>e \<in> set (fst st). 0 \<le> snd e" and "0 \<le> snd st" and "0 \<le> E"
    and "approx n E (sum_list (map snd (fst st)) + snd st)"
  shows "approx (n + Suc (length (itemsOf t))) (E + bucketShare t)
           (sum_list (map snd (fst (txStep st t))) + snd (txStep st t))
       \<and> (\<forall>e \<in> set (fst (txStep st t)). 0 \<le> snd e) \<and> 0 \<le> snd (txStep st t)"
proof -
  let ?k = "length (itemsOf t)"
  let ?m' = "fst (txStep st t)"
  have f: "approx (n + ?k) (E + itemsSum t) (sum_list (map snd ?m') + snd st)
       \<and> (\<forall>e \<in> set ?m'. 0 \<le> snd e)"
    unfolding txStep_fst itemsSum_def
    by (rule itemStep_fold_mass[OF assms(2,3,4,6)])
  then have a1: "approx (n + ?k) (E + itemsSum t) (sum_list (map snd ?m') + snd st)"
    and nn: "\<forall>e \<in> set ?m'. 0 \<le> snd e" by simp_all
  have s0: "0 \<le> sum_list (map snd ?m')" by (rule buckets_sum_nonneg[OF nn])
  have P0: "0 \<le> itemsSum t" by (rule itemsSum_nonneg[OF assms(2)])
  show ?thesis
  proof (cases "addsToManual t")
    case False
    then have h: "hasItems t" "\<not> passesGuard t" by (auto simp: addsToManual_def split: if_splits)
    have "approx (Suc (n + ?k)) (E + itemsSum t) (sum_list (map snd ?m') + snd st)"
      by (rule approx_Suc[OF _ _ a1]) (use assms(4,5) s0 P0 in simp_all)
    then show ?thesis using False h nn assms(4) by (simp add: txStep_snd bucketShare_def)
  next
    case True
    have x0: "0 \<le> manualShareF t"
      using True assms(1) passesGuard_remainder[of t]
      by (auto simp: manualShareF_def addsToManual_def split: if_splits)
    have "approx (Suc (n + ?k)) (E + itemsSum t + manualShareF t)
        (sum_list (map snd ?m') + snd st - snd st + fadd (snd st) (manualShareF t))"
      by (rule approx_accumulate[OF a1 assms(4) _ x0]) (use s0 in simp)
    moreover have "0 \<le> fadd (snd st) (manualShareF t)"
      unfolding fadd_def by (rule round64_nonneg) (use assms(4) x0 in simp)
    moreover have "E + itemsSum t + manualShareF t = E + bucketShare t"
    proof (cases "hasItems t")
      case True
      then show ?thesis using \<open>addsToManual t\<close>
        by (simp add: bucketShare_def manualShareF_def addsToManual_def)
    next
      case False
      then have "itemsOf t = []" by (simp add: hasItems_def itemsOf_def split: option.splits)
      then show ?thesis using False by (simp add: bucketShare_def manualShareF_def itemsSum_def)
    qed
    ultimately show ?thesis using True nn by (simp add: txStep_snd)
  qed
qed

lemma opCount_Cons: "opCount (t # rel) = Suc (length (itemsOf t)) + opCount rel"
  by (simp add: opCount_def)

lemma txStep_fold_mass:
  assumes "\<forall>t \<in> set rel. 0 \<le> amountAUD t \<and> (\<forall>i \<in> set (itemsOf t). 0 \<le> price i)"
    and "\<forall>e \<in> set (fst st). 0 \<le> snd e" and "0 \<le> snd st" and "0 \<le> E"
    and "approx n E (sum_list (map snd (fst st)) + snd st)"
  shows "approx (n + opCount rel) (E + sum_list (map bucketShare rel))
           (sum_list (map snd (fst (foldl txStep st rel))) + snd (foldl txStep st rel))
       \<and> (\<forall>e \<in> set (fst (foldl txStep st rel)). 0 \<le> snd e) \<and> 0 \<le> snd (foldl txStep st rel)"
  using assms
proof (induction rel arbitrary: st n E)
  case Nil
  then show ?case by (simp add: opCount_def)
next
  case (Cons t rel)
  have a: "0 \<le> amountAUD t" and p: "\<forall>i \<in> set (itemsOf t). 0 \<le> price i"
    and r: "\<forall>t \<in> set rel. 0 \<le> amountAUD t \<and> (\<forall>i \<in> set (itemsOf t). 0 \<le> price i)"
    using Cons.prems(1) by simp_all
  note s = txStep_mass[OF a p Cons.prems(2,3,4,5)]
  have e: "0 \<le> E + bucketShare t" using Cons.prems(4) bucketShare_nonneg[OF a p] by simp
  have "approx (n + Suc (length (itemsOf t)) + opCount rel)
          (E + bucketShare t + sum_list (map bucketShare rel))
           (sum_list (map snd (fst (foldl txStep (txStep st t) rel))) + snd (foldl txStep (txStep st t) rel))
       \<and> (\<forall>e \<in> set (fst (foldl txStep (txStep st t) rel)). 0 \<le> snd e)
       \<and> 0 \<le> snd (foldl txStep (txStep st t) rel)"
  proof (rule Cons.IH[OF r])
    show "\<forall>e \<in> set (fst (txStep st t)). 0 \<le> snd e" using s by simp
    show "0 \<le> snd (txStep st t)" using s by simp
    show "0 \<le> E + bucketShare t" by (rule e)
    show "approx (n + Suc (length (itemsOf t))) (E + bucketShare t)
           (sum_list (map snd (fst (txStep st t))) + snd (txStep st t))" using s by simp
  qed
  then show ?case by (simp add: opCount_Cons add.assoc)
qed

text \<open>A transaction that passes the test, or is balanced, adds what it amounts to.\<close>

lemma bucketShare_approx:
  assumes "0 \<le> amountAUD t" and "\<forall>i \<in> set (itemsOf t). 0 \<le> price i"
    and "hasItems t \<Longrightarrow> passesGuard t \<or> balanced t"
  shows "approx (length (itemsOf t)) (bucketShare t) (amountAUD t)"
proof (cases "hasItems t")
  case False
  then show ?thesis using assms(1) by (simp add: bucketShare_def approx_refl)
next
  case True
  then have k: "1 \<le> length (itemsOf t)"
    by (cases "itemsOf t") (auto simp: hasItems_def itemsOf_def split: option.splits)
  note s = itemsSumF_approx[OF assms(2)]
  show ?thesis
  proof (cases "passesGuard t")
    case g: True
    have d: "0 \<le> amountAUD t - itemsSumF t" using passesGuard_gap[OF g] by simp
    have r0: "0 \<le> remainderF t" using passesGuard_remainder[OF g] by simp
    have a1: "approx 1 (amountAUD t - itemsSumF t) (remainderF t)"
      unfolding remainderF_def fsub_def by (rule approx_round[OF d])
    have "approx (length (itemsOf t)) (amountAUD t - itemsSumF t) (remainderF t)"
      by (rule approx_mono[OF d r0 a1 k])
    then have "approx (length (itemsOf t)) (remainderF t) (amountAUD t - itemsSumF t)"
      by (rule approx_sym)
    with s have "approx (length (itemsOf t)) (itemsSum t + remainderF t)
        (itemsSumF t + (amountAUD t - itemsSumF t))"
      by (intro approx_add) simp_all
    then show ?thesis using True g by (simp add: bucketShare_def)
  next
    case False
    then have "balanced t" using assms(3) True by simp
    then show ?thesis using True False by (simp add: bucketShare_def balanced_def)
  qed
qed

lemma approx_sum_list:
  assumes "\<forall>t \<in> set ts. approx n (f t) (g t)"
  shows "approx n (sum_list (map f ts)) (sum_list (map g ts))"
  using assms
proof (induction ts)
  case Nil
  then show ?case by (simp add: approx_refl)
next
  case (Cons t ts)
  then have "approx n (f t) (g t)" "approx n (sum_list (map f ts)) (sum_list (map g ts))"
    by simp_all
  then have "approx n (f t + sum_list (map f ts)) (g t + sum_list (map g ts))"
    by (rule approx_add)
  then show ?case by simp
qed

lemma balanced_exact:
  assumes "\<forall>i \<in> set (itemsOf t). 0 \<le> price i" and "amountAUD t = itemsSum t"
  shows "balanced t"
  using assms itemsSum_nonneg[OF assms(1)] by (simp add: balanced_def approx_refl)

lemma balanced_float:
  assumes "\<forall>i \<in> set (itemsOf t). 0 \<le> price i" and "amountAUD t = itemsSumF t"
  shows "balanced t"
  using itemsSumF_approx[OF assms(1)] assms(2) by (simp add: balanced_def)

lemma txStep_fold_length:
  "length (fst (foldl txStep st rel)) \<le>
     length (fst st) + sum_list (map (\<lambda>t. length (itemsOf t)) rel)"
proof (induction rel arbitrary: st)
  case Nil
  then show ?case by simp
next
  case (Cons t rel)
  have "length (fst (foldl txStep (txStep st t) rel)) \<le>
     length (fst (txStep st t)) + sum_list (map (\<lambda>t. length (itemsOf t)) rel)"
    by (rule Cons.IH)
  moreover have "length (fst (txStep st t)) \<le> length (fst st) + length (itemsOf t)"
    unfolding txStep_fst by (rule itemStep_fold_length)
  ultimately show ?case by simp
qed

subsection \<open>Sums by category\<close>

lemma sumByCategory_fold_get:
  "getOr0 (foldl (\<lambda>acc curr. mapSet (category curr) (getOr0 acc (category curr) + amountAUD curr) acc)
             acc ts) c =
     getOr0 acc c + sum_list (map amountAUD (filter (\<lambda>t. category t = c) ts))"
  by (induction ts arbitrary: acc) (simp_all add: getOr0_mapSet add.assoc)

lemma sumByCategory_get:
  "getOr0 (sumByCategory ts) c = sum_list (map amountAUD (filter (\<lambda>t. category t = c) ts))"
proof -
  have "getOr0 [] c = 0" by (simp add: getOr0_def)
  then show ?thesis by (simp add: sumByCategory_def sumByCategory_fold_get)
qed

lemma sumByCategory_fold_keys:
  "fst ` set (foldl (\<lambda>acc curr. mapSet (category curr) (getOr0 acc (category curr) + amountAUD curr) acc)
             acc ts) = fst ` set acc \<union> category ` set ts"
  by (induction ts arbitrary: acc) (auto simp: keys_mapSet)

lemma sumByCategory_fold_distinct:
  "distinct (map fst (foldl (\<lambda>acc curr. mapSet (category curr) (getOr0 acc (category curr) + amountAUD curr) acc)
             acc ts)) = distinct (map fst acc)"
  by (induction ts arbitrary: acc) (simp_all add: distinct_mapSet)

lemma sumByCategory_keys: "fst ` set (sumByCategory ts) = category ` set ts"
  by (simp add: sumByCategory_def sumByCategory_fold_keys)

lemma sumByCategory_distinct: "distinct (map fst (sumByCategory ts))"
  by (simp add: sumByCategory_def sumByCategory_fold_distinct)

lemma sumByCategory_entry:
  "(c, v) \<in> set (sumByCategory ts) \<longleftrightarrow>
     c \<in> category ` set ts \<and> v = sum_list (map amountAUD (filter (\<lambda>t. category t = c) ts))"
proof
  assume m: "(c, v) \<in> set (sumByCategory ts)"
  then have "map_of (sumByCategory ts) c = Some v"
    using sumByCategory_distinct by simp
  then have "getOr0 (sumByCategory ts) c = v"
    by (simp add: getOr0_def)
  moreover have "c \<in> fst ` set (sumByCategory ts)"
    using m by force
  ultimately show "c \<in> category ` set ts \<and>
      v = sum_list (map amountAUD (filter (\<lambda>t. category t = c) ts))"
    by (simp add: sumByCategory_get sumByCategory_keys)
next
  assume r: "c \<in> category ` set ts \<and>
      v = sum_list (map amountAUD (filter (\<lambda>t. category t = c) ts))"
  then have "c \<in> fst ` set (sumByCategory ts)"
    by (simp add: sumByCategory_keys)
  then obtain w where w: "(c, w) \<in> set (sumByCategory ts)"
    by auto
  then have "map_of (sumByCategory ts) c = Some w"
    using sumByCategory_distinct by simp
  then have "getOr0 (sumByCategory ts) c = w"
    by (simp add: getOr0_def)
  then show "(c, v) \<in> set (sumByCategory ts)"
    using w r by (simp add: sumByCategory_get)
qed

subsection \<open>Plain objects\<close>

lemma objGet_plain:
  "c \<notin> set objectPrototypeKeys \<Longrightarrow>
     objGet acc c = (case map_of acc c of Some v \<Rightarrow> Own v | None \<Rightarrow> Undefined)"
  by (simp add: objGet_def split: option.split)

lemma categoryStep_other: "category t \<noteq> c \<Longrightarrow> map_of (categoryStep acc t) c = map_of acc c"
  by (simp add: categoryStep_def Let_def map_of_mapSet split: property.split slot.split)

lemma categoryStep_same:
  assumes "c \<notin> set objectPrototypeKeys" and "numeric acc c" and "category t = c"
  shows "map_of (categoryStep acc t) c = Some (Amount (fadd (numAt acc c) (amountAUD t)))"
  using assms
  by (auto simp: categoryStep_def Let_def objGet_plain numeric_def numAt_def map_of_mapSet
      split: option.splits slot.splits)

lemma categoryStep_fold_get:
  assumes "c \<notin> set objectPrototypeKeys" and "numeric acc c"
  shows "map_of (foldl categoryStep acc ts) c =
     (if c \<in> category ` set ts
      then Some (Amount (foldl fadd (numAt acc c) (map amountAUD (filter (\<lambda>t. category t = c) ts))))
      else map_of acc c)"
  using assms(2)
proof (induction ts arbitrary: acc)
  case Nil
  then show ?case by simp
next
  case (Cons t ts)
  show ?case
  proof (cases "category t = c")
    case True
    have m: "map_of (categoryStep acc t) c = Some (Amount (fadd (numAt acc c) (amountAUD t)))"
      by (rule categoryStep_same[OF assms(1) Cons.prems True])
    then have n: "numeric (categoryStep acc t) c"
      and v: "numAt (categoryStep acc t) c = fadd (numAt acc c) (amountAUD t)"
      by (simp_all add: numeric_def numAt_def)
    have e: "filter (\<lambda>t. category t = c) ts = []" if "c \<notin> category ` set ts"
      using that by (auto simp: filter_empty_conv)
    show ?thesis using Cons.IH[OF n] True m v e by simp
  next
    case False
    have m: "map_of (categoryStep acc t) c = map_of acc c" by (rule categoryStep_other[OF False])
    then have n: "numeric (categoryStep acc t) c"
      and v: "numAt (categoryStep acc t) c = numAt acc c"
      using Cons.prems by (simp_all add: numeric_def numAt_def)
    show ?thesis using Cons.IH[OF n] False m v by simp
  qed
qed

lemma categoryStep_distinct:
  "distinct (map fst (categoryStep acc t)) = distinct (map fst acc)"
  by (simp add: categoryStep_def Let_def distinct_mapSet split: property.split slot.split)

lemma categoryStep_fold_distinct:
  "distinct (map fst (foldl categoryStep acc ts)) = distinct (map fst acc)"
  by (induction ts arbitrary: acc) (simp_all add: categoryStep_distinct)

lemma categoryStep_amounts:
  assumes "category t \<notin> set objectPrototypeKeys" and "\<forall>e \<in> set acc. isAmount (snd e)"
  shows "\<forall>e \<in> set (categoryStep acc t). isAmount (snd e)"
proof -
  have n: "map_of acc (category t) \<noteq> Some (Text p xs)" for p xs
  proof
    assume "map_of acc (category t) = Some (Text p xs)"
    then have "(category t, Text p xs) \<in> set acc" by (rule map_of_SomeD)
    then show False using assms(2) by auto
  qed
  have "\<forall>e \<in> set (mapSet (category t) (Amount v) acc). isAmount (snd e)" for v
  proof
    fix e assume "e \<in> set (mapSet (category t) (Amount v) acc)"
    then have "e = (category t, Amount v) \<or> e \<in> set acc"
      using set_mapSet[of "category t" "Amount v" acc] by auto
    then show "isAmount (snd e)" using assms(2) by auto
  qed
  then show ?thesis
    using n by (simp add: categoryStep_def Let_def objGet_plain[OF assms(1)] split: option.split slot.split)
qed

lemma categoryStep_fold_amounts:
  assumes "\<forall>t \<in> set ts. category t \<notin> set objectPrototypeKeys"
    and "\<forall>e \<in> set acc. isAmount (snd e)"
  shows "\<forall>e \<in> set (foldl categoryStep acc ts). isAmount (snd e)"
  using assms
proof (induction ts arbitrary: acc)
  case Nil
  then show ?case by simp
next
  case (Cons t ts)
  have "\<forall>e \<in> set (categoryStep acc t). isAmount (snd e)"
    by (rule categoryStep_amounts) (use Cons.prems in simp_all)
  then show ?case using Cons.IH[of "categoryStep acc t"] Cons.prems(1) by simp
qed

lemma mset_objectEntries: "mset (objectEntries obj) = mset obj"
  by (simp add: objectEntries_def)

lemma set_objectEntries: "set (objectEntries obj) = set obj"
  using mset_objectEntries[of obj] by (metis set_mset_mset)

lemma distinct_objectEntries: "distinct (map fst (objectEntries obj)) = distinct (map fst obj)"
proof -
  have "mset (map fst (objectEntries obj)) = mset (map fst obj)"
    by (simp add: mset_objectEntries)
  then show ?thesis by (rule mset_eq_imp_distinct_iff)
qed

lemma sortByValue_mset: "sortByValue es = Some out \<Longrightarrow> mset out = mset es"
  by (auto simp: sortByValue_def mset_sortDesc split: if_splits)

lemma sortByValue_amounts:
  "\<forall>e \<in> set es. isAmount (snd e) \<Longrightarrow> sortByValue es = Some (sortDesc (\<lambda>e. amountOf (snd e)) es)"
  by (simp add: sortByValue_def list_all_iff)

lemma chartData_distinct: "distinct (map fst (chartData ts))"
  by (simp add: chartData_def distinct_objectEntries categoryStep_fold_distinct)

lemma chartData_entry:
  assumes "c \<notin> set objectPrototypeKeys"
  shows "(c, v) \<in> set (chartData ts) \<longleftrightarrow>
     c \<in> category ` set (expenseTransactions ts) \<and> v = Amount (categorySpent ts c)"
proof -
  let ?obj = "foldl categoryStep [] (expenseTransactions ts)"
  have d: "distinct (map fst ?obj)" by (simp add: categoryStep_fold_distinct)
  have f: "filter (\<lambda>t. category t = c) (expenseTransactions ts) =
      filter (\<lambda>t. typeT t \<noteq> income \<and> category t = c) ts"
    by (simp add: expenseTransactions_def)
  have "(c, v) \<in> set (chartData ts) \<longleftrightarrow> map_of ?obj c = Some v"
    using d by (simp add: chartData_def set_objectEntries)
  also have "\<dots> \<longleftrightarrow> c \<in> category ` set (expenseTransactions ts) \<and> v = Amount (categorySpent ts c)"
    using categoryStep_fold_get[OF assms, of "[]" "expenseTransactions ts"]
    by (auto simp: numeric_def numAt_def categorySpent_def f)
  finally show ?thesis .
qed

lemma categoryData_chartData: "categoryData ts = sortByValue (chartData ts)"
  by (simp add: categoryData_def chartData_def expenseTransactions_def Let_def)

lemma cellFill_unknown:
  "c \<notin> set objectPrototypeKeys \<Longrightarrow> map_of CATEGORY_COLORS c = None \<Longrightarrow> cellFill c = Colour ''#94a3b8''"
  by (simp add: cellFill_def objGet_plain)

subsection \<open>Budget status\<close>







subsection \<open>Item statistics\<close>

lemma pricesOf_mapSet: "pricesOf (mapSet k v m) n = (if n = k then v else pricesOf m n)"
  by (simp add: pricesOf_def map_of_mapSet)

lemma pushPrice_prices:
  "pricesOf (pushPrice t m i) n =
     pricesOf m n @ (if trim (name i) = n then [recordOf t i] else [])"
  by (cases "map_of m (trim (name i))")
     (auto simp: pushPrice_def Let_def pricesOf_def map_of_mapSet recordOf_def storeOf_def)

lemma pushPrice_keys:
  "fst ` set (pushPrice t m i) = insert (trim (name i)) (fst ` set m)"
  by (auto simp: pushPrice_def Let_def keys_mapSet)

lemma pushPrice_distinct:
  "distinct (map fst (pushPrice t m i)) = distinct (map fst m)"
  by (simp add: pushPrice_def Let_def distinct_mapSet)

lemma pushPrice_fold_prices:
  "pricesOf (foldl (pushPrice t) m its) n =
     pricesOf m n @ map (recordOf t) (filter (\<lambda>i. trim (name i) = n) its)"
  by (induction its arbitrary: m) (simp_all add: pushPrice_prices)

lemma pushPrice_fold_keys:
  "fst ` set (foldl (pushPrice t) m its) = fst ` set m \<union> (\<lambda>i. trim (name i)) ` set its"
  by (induction its arbitrary: m) (auto simp: pushPrice_keys)

lemma pushPrice_fold_distinct:
  "distinct (map fst (foldl (pushPrice t) m its)) = distinct (map fst m)"
  by (induction its arbitrary: m) (simp_all add: pushPrice_distinct)

lemma statsMapOf_unfold:
  "statsMapOf ts = foldl (\<lambda>m t. foldl (pushPrice t) m (itemsOf t)) [] ts"
proof -
  have "(\<lambda>statsMap t. case items t of None \<Rightarrow> statsMap
          | Some its \<Rightarrow> if length its > 0 then foldl (pushPrice t) statsMap its else statsMap)
      = (\<lambda>m t. foldl (pushPrice t) m (itemsOf t))"
    by (intro ext) (simp add: itemsOf_def split: option.split)
  then show ?thesis by (simp add: statsMapOf_def)
qed

lemma stats_fold_prices:
  "pricesOf (foldl (\<lambda>m t. foldl (pushPrice t) m (itemsOf t)) m ts) n =
     pricesOf m n @ recordsNamed n ts"
  by (induction ts arbitrary: m) (simp_all add: recordsNamed_def pushPrice_fold_prices)

lemma stats_fold_keys:
  "fst ` set (foldl (\<lambda>m t. foldl (pushPrice t) m (itemsOf t)) m ts) =
     fst ` set m \<union> (\<Union>t \<in> set ts. (\<lambda>i. trim (name i)) ` set (itemsOf t))"
  by (induction ts arbitrary: m) (auto simp: pushPrice_fold_keys)

lemma stats_fold_distinct:
  "distinct (map fst (foldl (\<lambda>m t. foldl (pushPrice t) m (itemsOf t)) m ts)) = distinct (map fst m)"
  by (induction ts arbitrary: m) (simp_all add: pushPrice_fold_distinct)

lemma statsMapOf_prices: "pricesOf (statsMapOf ts) n = recordsNamed n ts"
proof -
  have "pricesOf [] n = []" by (simp add: pricesOf_def)
  then show ?thesis by (simp add: statsMapOf_unfold stats_fold_prices)
qed

lemma statsMapOf_keys:
  "fst ` set (statsMapOf ts) = (\<Union>t \<in> set ts. (\<lambda>i. trim (name i)) ` set (itemsOf t))"
  by (simp add: statsMapOf_unfold stats_fold_keys)

lemma statsMapOf_distinct: "distinct (map fst (statsMapOf ts))"
  by (simp add: statsMapOf_unfold stats_fold_distinct)

lemma statsMapOf_entry:
  assumes "(n, ps) \<in> set (statsMapOf ts)"
  shows "ps = recordsNamed n ts"
proof -
  have "map_of (statsMapOf ts) n = Some ps"
    using assms statsMapOf_distinct by simp
  then have "pricesOf (statsMapOf ts) n = ps"
    by (simp add: pricesOf_def)
  then show ?thesis by (simp add: statsMapOf_prices)
qed

lemma recordsNamed_member:
  assumes "t \<in> set ts" and "i \<in> set (itemsOf t)"
  shows "recordOf t i \<in> set (recordsNamed (trim (name i)) ts)"
  using assms by (auto simp: recordsNamed_def)

lemma recordsNamed_store: "p \<in> set (recordsNamed n ts) \<Longrightarrow> store p \<noteq> []"
  by (auto simp: recordsNamed_def recordOf_def split: if_splits)

lemma statsMapOf_has_entry:
  assumes "t \<in> set ts" and "i \<in> set (itemsOf t)"
  shows "(trim (name i), recordsNamed (trim (name i)) ts) \<in> set (statsMapOf ts)"
proof -
  have "trim (name i) \<in> fst ` set (statsMapOf ts)"
    using assms by (auto simp: statsMapOf_keys)
  then obtain ps where "(trim (name i), ps) \<in> set (statsMapOf ts)"
    by auto
  then show ?thesis
    using statsMapOf_entry by blast
qed

lemma itemStat_fields:
  "nameS (itemStat time e) = fst e \<and> history (itemStat time e) = sort_key (\<lambda>p. - time (dateP p)) (snd e)"
  by (simp add: itemStat_def Let_def)

lemma itemStats_member:
  "s \<in> set (itemStats time ts) \<longleftrightarrow>
     (\<exists>e \<in> set (statsMapOf ts). snd e \<noteq> [] \<and> s = itemStat time e)"
  by (auto simp: itemStats_def Let_def)

lemma foldl_min_in: "foldl min a vs \<in> insert a (set vs)"
  for a :: rat
  by (induction vs arbitrary: a) (auto simp: min_def)

lemma foldl_min_le: "foldl min a vs \<le> a \<and> (\<forall>v \<in> set vs. foldl min a vs \<le> v)"
  for a :: rat
proof (induction vs arbitrary: a)
  case Nil
  show ?case by simp
next
  case (Cons w ws)
  have "foldl min (min a w) ws \<le> min a w" and "\<forall>v \<in> set ws. foldl min (min a w) ws \<le> v"
    using Cons.IH[of "min a w"] by simp_all
  then show ?case by auto
qed

lemma mathMin_in: "vs \<noteq> [] \<Longrightarrow> mathMin vs \<in> set vs"
  using foldl_min_in[of "hd vs" "tl vs"] by (cases vs) (auto simp: mathMin_def)

lemma mathMin_le: "v \<in> set vs \<Longrightarrow> mathMin vs \<le> v"
  using foldl_min_le[of "hd vs" "tl vs"] by (cases vs) (auto simp: mathMin_def)

lemma trim_Milk: "trim ''Milk'' = ''Milk''"
  by code_simp

lemmas priceWatch_defs = itemStats_def itemStat_def statsMapOf_def pushPrice_def storeOf_def
  mathMin_def mathMax_def trim_Milk mkTx_def mkItem_def

lemmas date_defs = timeOf_def getTime_def parseDateOnly_def isDigit_def digitsToInt_def
  daysInMonth_def isLeapYear_def daysFromCivil_def

section \<open>The claims\<close>

subsection \<open>C1: conservation of the drill-down total\<close>

text \<open>
  Claim C1, as amended. For a selected category whose amounts and prices are not negative
  (and at most \<open>2^53\<close>, far below the overflow range), where every transaction that carries
  items either passes the test of line 102 or is balanced, and where the manual total is \<open>0\<close>
  or exceeds \<open>0.01\<close>: the total of all output buckets, as \<open>totalItemizedExpense\<close> adds them,
  agrees with the exact sum of \<open>amountAUD\<close> over the transactions of the category up to the
  rounding of the additions, at most three roundings for each transaction and each item.
\<close>

theorem itemizedData_conservation:
  assumes "c \<noteq> []"
    and "\<forall>t \<in> set (relevantTransactions c filtered).
           0 \<le> amountAUD t \<and> amountAUD t \<le> 2 ^ 53
           \<and> (\<forall>i \<in> set (itemsOf t). 0 \<le> price i \<and> price i \<le> 2 ^ 53)"
    and "\<forall>t \<in> set (relevantTransactions c filtered).
           hasItems t \<longrightarrow> passesGuard t \<or> balanced t"
    and "manualEntryTotal (relevantTransactions c filtered) = 0
         \<or> manualEntryTotal (relevantTransactions c filtered) > toDouble (1 / 100)"
  shows "approx (3 * opCount (relevantTransactions c filtered))
     (sum_list (map amountAUD (relevantTransactions c filtered)))
     (totalItemizedExpense (itemizedData (Some c) filtered))"
proof -
  let ?rel = "relevantTransactions c filtered"
  let ?N = "opCount ?rel"
  let ?W = "sum_list (map snd (itemMapOf ?rel)) + manualEntryTotal ?rel"
  let ?out = "itemizedData (Some c) filtered"
  have nn: "\<forall>t \<in> set ?rel. 0 \<le> amountAUD t \<and> (\<forall>i \<in> set (itemsOf t). 0 \<le> price i)"
    using assms(2) by simp
  have "approx (0 + ?N) (0 + sum_list (map bucketShare ?rel))
           (sum_list (map snd (fst (foldl txStep ([], 0) ?rel))) + snd (foldl txStep ([], 0) ?rel))
       \<and> (\<forall>e \<in> set (fst (foldl txStep ([], 0) ?rel)). 0 \<le> snd e)
       \<and> 0 \<le> snd (foldl txStep ([], 0) ?rel)"
    by (rule txStep_fold_mass[OF nn]) (simp_all add: approx_zero_iff)
  then have m1: "approx ?N (sum_list (map bucketShare ?rel)) ?W"
    and bn: "\<forall>e \<in> set (itemMapOf ?rel). 0 \<le> snd e" and mn: "0 \<le> manualEntryTotal ?rel"
    by (simp_all add: itemMapOf_def manualEntryTotal_def)
  have "\<forall>t \<in> set ?rel. approx ?N (bucketShare t) (amountAUD t)"
  proof
    fix t assume t: "t \<in> set ?rel"
    have a: "0 \<le> amountAUD t" and p: "\<forall>i \<in> set (itemsOf t). 0 \<le> price i"
      using nn t by simp_all
    have b: "approx (length (itemsOf t)) (bucketShare t) (amountAUD t)"
      by (rule bucketShare_approx[OF a p]) (use assms(3) t in simp)
    have "length (itemsOf t) \<le> sum_list (map (\<lambda>t. length (itemsOf t)) ?rel)"
      by (rule member_le_sum_list) (use t in auto)
    then have le: "length (itemsOf t) \<le> ?N" by (simp add: opCount_def)
    show "approx ?N (bucketShare t) (amountAUD t)"
      by (rule approx_mono[OF bucketShare_nonneg[OF a p] a b le])
  qed
  then have "approx ?N (sum_list (map bucketShare ?rel)) (sum_list (map amountAUD ?rel))"
    by (rule approx_sum_list)
  then have "approx ?N (sum_list (map amountAUD ?rel)) (sum_list (map bucketShare ?rel))"
    by (rule approx_sym)
  then have m2: "approx (?N + ?N) (sum_list (map amountAUD ?rel)) ?W"
    using m1 by (rule approx_trans)
  have t0: "0 \<le> toDouble (1 / 100)" unfolding toDouble_def by (rule round64_nonneg) simp
  have out: "?out = sortDesc snd (itemMapOf ?rel @
       (if manualEntryTotal ?rel > toDouble (1 / 100)
        then [(manualLabel, manualEntryTotal ?rel)] else []))"
    by (rule itemizedData_unfold[OF assms(1)])
  have sum_out: "sum_list (map snd ?out) = ?W"
    using assms(4) t0 by (auto simp: out sortDesc_def sum_sort_key)
  have set_out: "set ?out \<subseteq> insert (manualLabel, manualEntryTotal ?rel) (set (itemMapOf ?rel))"
    by (auto simp: out sortDesc_def split: if_splits)
  have on: "\<forall>x \<in> set (map snd ?out). 0 \<le> x" using set_out bn mn by auto
  have len: "length ?out \<le> ?N"
  proof -
    have l1: "length (itemMapOf ?rel) \<le> sum_list (map (\<lambda>t. length (itemsOf t)) ?rel)"
      using txStep_fold_length[of "([], 0)" ?rel] by (simp add: itemMapOf_def)
    have l2: "(if manualEntryTotal ?rel > toDouble (1 / 100) then 1 else 0) \<le> length ?rel"
    proof (cases ?rel)
      case Nil
      then have "manualEntryTotal ?rel = 0" by (simp add: manualEntryTotal_def)
      then show ?thesis using t0 by simp
    next
      case (Cons a list)
      then show ?thesis by simp
    qed
    have "length ?out = length (itemMapOf ?rel)
        + (if manualEntryTotal ?rel > toDouble (1 / 100) then 1 else 0)"
      by (simp add: out sortDesc_def)
    then show ?thesis using l1 l2 by (simp add: opCount_def)
  qed
  have "approx (0 + length (map snd ?out)) (0 + sum_list (map snd ?out)) (foldl fadd 0 (map snd ?out))
      \<and> 0 \<le> foldl fadd 0 (map snd ?out)"
    by (rule fadd_fold_approx[OF on]) (simp_all add: approx_zero_iff)
  then have f1: "approx (length ?out) ?W (totalItemizedExpense ?out)"
    and f0: "0 \<le> totalItemizedExpense ?out"
    by (simp_all add: sum_out totalItemizedExpense_def foldl_fadd_map[of snd])
  have w0: "0 \<le> ?W" using buckets_sum_nonneg[OF bn] mn by simp
  have m3: "approx ?N ?W (totalItemizedExpense ?out)"
    by (rule approx_mono[OF w0 f0 f1 len])
  have "approx (?N + ?N + ?N) (sum_list (map amountAUD ?rel)) (totalItemizedExpense ?out)"
    using m2 m3 by (rule approx_trans)
  moreover have "?N + ?N + ?N = 3 * ?N" by simp
  ultimately show ?thesis by simp
qed

text \<open>
  The theorem at scenario A of the specification, a receipt of 50 with items of 4 and 3,
  beside a receipt of 0.3 with items of 0.1 and 0.2: the first passes the test, the second is
  balanced, and the buckets total 50.300000000000004 for amounts of 50.3.
\<close>

theorem itemizedData_conservation_witness:
  "''Groceries'' \<noteq> []
   \<and> relevantTransactions ''Groceries'' [scenarioA, thirtyCents] = [scenarioA, thirtyCents]
   \<and> list_all (\<lambda>t. 0 \<le> amountAUD t \<and> amountAUD t \<le> 2 ^ 53
        \<and> list_all (\<lambda>i. 0 \<le> price i \<and> price i \<le> 2 ^ 53) (itemsOf t)) [scenarioA, thirtyCents]
   \<and> hasItems scenarioA \<and> passesGuard scenarioA
   \<and> hasItems thirtyCents \<and> balanced thirtyCents
   \<and> manualEntryTotal [scenarioA, thirtyCents] > toDouble (1 / 100)
   \<and> opCount [scenarioA, thirtyCents] = 6
   \<and> approx 18 (50 + toDouble (3 / 10))
        (totalItemizedExpense (itemizedData (Some ''Groceries'') [scenarioA, thirtyCents]))"
proof -
  have g: "''Groceries'' \<noteq> []" by simp
  have rel: "relevantTransactions ''Groceries'' [scenarioA, thirtyCents] = [scenarioA, thirtyCents]"
    by code_simp
  have r: "list_all (\<lambda>t. 0 \<le> amountAUD t \<and> amountAUD t \<le> 2 ^ 53
        \<and> list_all (\<lambda>i. 0 \<le> price i \<and> price i \<le> 2 ^ 53) (itemsOf t)) [scenarioA, thirtyCents]"
    by code_simp
  have h: "hasItems scenarioA" "passesGuard scenarioA" "hasItems thirtyCents" "balanced thirtyCents"
    "manualEntryTotal [scenarioA, thirtyCents] > toDouble (1 / 100)"
    "opCount [scenarioA, thirtyCents] = 6"
    by code_simp+
  have s: "sum_list (map amountAUD [scenarioA, thirtyCents]) = 50 + toDouble (3 / 10)"
    by (simp add: scenarioA_def thirtyCents_def mkTx_def)
  have "approx (3 * opCount (relevantTransactions ''Groceries'' [scenarioA, thirtyCents]))
     (sum_list (map amountAUD (relevantTransactions ''Groceries'' [scenarioA, thirtyCents])))
     (totalItemizedExpense (itemizedData (Some ''Groceries'') [scenarioA, thirtyCents]))"
  proof (rule itemizedData_conservation[OF g])
    show "\<forall>t \<in> set (relevantTransactions ''Groceries'' [scenarioA, thirtyCents]).
           0 \<le> amountAUD t \<and> amountAUD t \<le> 2 ^ 53
           \<and> (\<forall>i \<in> set (itemsOf t). 0 \<le> price i \<and> price i \<le> 2 ^ 53)"
      using r unfolding rel by (simp add: list_all_iff)
    show "\<forall>t \<in> set (relevantTransactions ''Groceries'' [scenarioA, thirtyCents]).
           hasItems t \<longrightarrow> passesGuard t \<or> balanced t"
      unfolding rel using h by simp
    show "manualEntryTotal (relevantTransactions ''Groceries'' [scenarioA, thirtyCents]) = 0
         \<or> manualEntryTotal (relevantTransactions ''Groceries'' [scenarioA, thirtyCents]) > toDouble (1 / 100)"
      unfolding rel using h by simp
  qed
  then have "approx 18 (50 + toDouble (3 / 10))
        (totalItemizedExpense (itemizedData (Some ''Groceries'') [scenarioA, thirtyCents]))"
    unfolding rel s h(6) by simp
  with g rel r h show ?thesis by simp
qed

text \<open>
  C1 as stated fails. A receipt of 5 whose items cost 4 and 3 yields buckets that total 7,
  since the test \<open>t.amountAUD > itemsSum + 0.1\<close> never subtracts. And where the receipts are
  balanced the two sums still differ in the last place: a receipt of 0.3 with items of 0.1 and
  0.2 yields buckets that total 0.30000000000000004.
\<close>

theorem itemizedData_conservation_counterexample:
  "category overItemised = ''Groceries''
   \<and> totalItemizedExpense (itemizedData (Some ''Groceries'') [overItemised]) = 7
   \<and> amountAUD overItemised = 5
   \<and> category thirtyCents = ''Groceries''
   \<and> amountAUD thirtyCents = 5404319552844595 / 2 ^ 54
   \<and> totalItemizedExpense (itemizedData (Some ''Groceries'') [thirtyCents]) = 5404319552844596 / 2 ^ 54
   \<and> totalItemizedExpense (itemizedData (Some ''Groceries'') [thirtyCents]) \<noteq> amountAUD thirtyCents"
  by code_simp

subsection \<open>C2: what each transaction adds to the drill-down\<close>

text \<open>
  Claim C2, as amended. One round of the loop, from any state \<open>(itemMap, manualEntryTotal)\<close>,
  with the additions as the code makes them: the bucket of every name receives, one rounded
  addition after the other, the prices of the transaction's items of that (trimmed) name; a
  transaction that carries items adds its remainder \<open>amountAUD - itemsSum\<close> to the manual total
  exactly when the test \<open>amountAUD > itemsSum + 0.1\<close> of line 102 passes, and the remainder it
  then adds is above \<open>0\<close>; a transaction without items adds its full amount. Over the whole
  category there is one bucket for each trimmed item name and no other, it holds the prices of
  the items of that name added in order from \<open>0\<close>, and the manual total is the amounts and
  remainders added in order from \<open>0\<close>. The output holds the named buckets, and the manual
  bucket exactly when the manual total exceeds \<open>0.01\<close>, in descending order of their totals.
\<close>

theorem itemized_accumulation_rule:
  assumes "c \<noteq> []"
  shows "getOr0 (fst (txStep st t)) n = foldl fadd (getOr0 (fst st) n) (namedPrices n (itemsOf t))
    \<and> snd (txStep st t) =
        (if hasItems t
         then (if amountAUD t > fadd (itemsSumF t) (toDouble (1 / 10))
               then fadd (snd st) (fsub (amountAUD t) (itemsSumF t)) else snd st)
         else fadd (snd st) (amountAUD t))
    \<and> (if amountAUD t > fadd (itemsSumF t) (toDouble (1 / 10))
        then 0 < fsub (amountAUD t) (itemsSumF t) else True)
    \<and> distinct (map fst (itemMapOf (relevantTransactions c filtered)))
    \<and> fst ` set (itemMapOf (relevantTransactions c filtered)) =
        (\<Union>t \<in> set (relevantTransactions c filtered). (\<lambda>i. trim (name i)) ` set (itemsOf t))
    \<and> getOr0 (itemMapOf (relevantTransactions c filtered)) n =
        foldl fadd 0 (concat (map (\<lambda>t. namedPrices n (itemsOf t)) (relevantTransactions c filtered)))
    \<and> manualEntryTotal (relevantTransactions c filtered) =
        foldl fadd 0 (map manualShareF (filter addsToManual (relevantTransactions c filtered)))
    \<and> mset (itemizedData (Some c) filtered) =
        mset (itemMapOf (relevantTransactions c filtered)) +
        (if manualEntryTotal (relevantTransactions c filtered) > toDouble (1 / 100)
         then {#(manualLabel, manualEntryTotal (relevantTransactions c filtered))#} else {#})
    \<and> sorted_wrt (\<lambda>a b. snd b \<le> snd a) (itemizedData (Some c) filtered)"
proof -
  let ?rel = "relevantTransactions c filtered"
  have a: "getOr0 (fst (txStep st t)) n = foldl fadd (getOr0 (fst st) n) (namedPrices n (itemsOf t))"
    by (rule txStep_bucket)
  have b: "snd (txStep st t) =
        (if hasItems t
         then (if amountAUD t > fadd (itemsSumF t) (toDouble (1 / 10))
               then fadd (snd st) (fsub (amountAUD t) (itemsSumF t)) else snd st)
         else fadd (snd st) (amountAUD t))"
    by (simp add: txStep_snd addsToManual_def manualShareF_def passesGuard_def remainderF_def)
  have p: "if amountAUD t > fadd (itemsSumF t) (toDouble (1 / 10))
        then 0 < fsub (amountAUD t) (itemsSumF t) else True"
    using passesGuard_remainder[of t] by (simp add: passesGuard_def remainderF_def)
  have d: "distinct (map fst (itemMapOf ?rel))"
    by (simp add: itemMapOf_def txStep_fold_distinct)
  have k: "fst ` set (itemMapOf ?rel) = (\<Union>t \<in> set ?rel. (\<lambda>i. trim (name i)) ` set (itemsOf t))"
    by (simp add: itemMapOf_def txStep_fold_keys)
  have g: "getOr0 (itemMapOf ?rel) n =
        foldl fadd 0 (concat (map (\<lambda>t. namedPrices n (itemsOf t)) ?rel))"
    using txStep_fold_bucket[of "([], 0)" ?rel n] by (simp add: itemMapOf_def getOr0_def)
  have m: "manualEntryTotal ?rel = foldl fadd 0 (map manualShareF (filter addsToManual ?rel))"
    by (simp add: manualEntryTotal_def txStep_fold_manual)
  have out: "mset (itemizedData (Some c) filtered) =
        mset (itemMapOf ?rel) +
        (if manualEntryTotal ?rel > toDouble (1 / 100)
         then {#(manualLabel, manualEntryTotal ?rel)#} else {#})"
    by (simp add: itemizedData_unfold[OF assms] mset_sortDesc)
  have s: "sorted_wrt (\<lambda>a b. snd b \<le> snd a) (itemizedData (Some c) filtered)"
    unfolding itemizedData_unfold[OF assms] by (rule sorted_sortDesc)
  from a b p d k g m out s show ?thesis by blast
qed

text \<open>
  The rule at scenario A of the specification, at a manual entry of \<open>1/16\<close>, and at two receipts
  that both name milk.
\<close>

theorem itemized_accumulation_rule_witness:
  "''Groceries'' \<noteq> []
   \<and> txStep ([], 0) scenarioA = ([(''Milk'', 4), (''Bread'', 3)], 43)
   \<and> txStep ([], 0) smallManual = ([], 1 / 16)
   \<and> itemizedData (Some ''Groceries'') [scenarioA] = [(manualLabel, 43), (''Milk'', 4), (''Bread'', 3)]
   \<and> itemMapOf (relevantTransactions ''Groceries'' milkTwice) = [(''Milk'', 7), (''Bread'', 2)]
   \<and> distinct (map fst (itemMapOf (relevantTransactions ''Groceries'' milkTwice)))
   \<and> itemizedData (Some ''Groceries'') milkTwice = [(''Milk'', 7), (manualLabel, 5), (''Bread'', 2)]
   \<and> sorted_wrt (\<lambda>a b. snd b \<le> snd a) (itemizedData (Some ''Groceries'') milkTwice)"
proof -
  have g: "''Groceries'' \<noteq> []" by simp
  note A = itemized_accumulation_rule[OF g, of "([], 0)" scenarioA "''Milk''" milkTwice]
  have e: "txStep ([], 0) scenarioA = ([(''Milk'', 4), (''Bread'', 3)], 43)"
    "txStep ([], 0) smallManual = ([], 1 / 16)"
    "itemizedData (Some ''Groceries'') [scenarioA] = [(manualLabel, 43), (''Milk'', 4), (''Bread'', 3)]"
    "itemMapOf (relevantTransactions ''Groceries'' milkTwice) = [(''Milk'', 7), (''Bread'', 2)]"
    "itemizedData (Some ''Groceries'') milkTwice = [(''Milk'', 7), (manualLabel, 5), (''Bread'', 2)]"
    by code_simp+
  from A e g show ?thesis by simp
qed

text \<open>
  C2 as stated fails in two places. A manual total of \<open>1/16\<close> is below the tolerance \<open>0.1\<close> and
  the manual bucket is in the output all the same, because the test is
  \<open>manualEntryTotal > 0.01\<close>. And a receipt of 0.4 with one item of 0.3 has a remainder above
  0.1 as doubles, which the test \<open>0.4 > 0.3 + 0.1\<close> does not let through.
\<close>

theorem itemized_accumulation_rule_counterexample:
  "category smallManual = ''Groceries''
   \<and> manualEntryTotal [smallManual] = 1 / 16
   \<and> \<not> (1 / 16 :: rat) > toDouble (1 / 10)
   \<and> itemizedData (Some ''Groceries'') [smallManual] = [(manualLabel, 1 / 16)]
   \<and> category fortyCents = ''Groceries'' \<and> hasItems fortyCents
   \<and> remainderF fortyCents > toDouble (1 / 10)
   \<and> amountAUD fortyCents - itemsSum fortyCents > 1 / 10
   \<and> manualEntryTotal [fortyCents] = 0
   \<and> itemizedData (Some ''Groceries'') [fortyCents] = [(''Milk'', toDouble (3 / 10))]"
  by code_simp

subsection \<open>C3: the month key\<close>

text \<open>
  The months of \<open>monthlyHistory\<close> are the first seven characters of the dates, for every list of
  transactions; so are the months of the drop-down of the modal.
\<close>

lemma monthlyHistory_months:
  "set (map month (monthlyHistory ts)) = (\<lambda>t. take 7 (date t)) ` set ts"
proof -
  have "set (map month (monthlyHistory ts)) = fst ` set (foldl historyStep [] ts)"
    by (simp add: monthlyHistory_def Let_def sortDescStr_def comp_def)
  then show ?thesis
    by (simp add: historyStep_fold_keys monthKey_def)
qed

lemma availableMonths_months:
  "set (availableMonths ts) = (\<lambda>t. take 7 (date t)) ` set ts"
  by (simp add: availableMonths_def)

text \<open>In a time zone east of Greenwich (here UTC+10) the trend has the same key.\<close>

lemma trendKey_east: "trendKey 600 newYearTx = Some ''2024-01''"
  by code_simp

text \<open>
  Claim C3 at a transaction dated \<open>2024-01-01\<close>, in a runtime whose local time is five hours
  behind UTC. \<open>monthlyHistory\<close> and the drop-down of the modal file it under \<open>2024-01\<close>, the
  first seven characters of its date. \<open>monthlyData\<close> parses the date, which is midnight UTC,
  and asks for the local year and month: the transaction is filed under \<open>2023-12\<close>.
\<close>

theorem trend_month_key_west_of_utc:
  "take 7 (date newYearTx) = ''2024-01''
   \<and> map month (monthlyHistory [newYearTx]) = [''2024-01'']
   \<and> availableMonths [newYearTx] = [''2024-01'']
   \<and> trendKey (- 300) newYearTx = Some ''2023-12''
   \<and> map_option (map (\<lambda>e. nameD (fst e))) (monthlyData (- 300) [newYearTx]) = Some [''2023-12'']"
proof -
  have k: "trendKey (- 300) newYearTx = Some ''2023-12''"
    by code_simp
  have h: "map month (monthlyHistory [newYearTx]) = [''2024-01'']"
    by (simp add: monthlyHistory_def historyStep_def monthKey_def sortDescStr_def
        newYearTx_def mkTx_def)
  have a: "availableMonths [newYearTx] = [''2024-01'']"
    by (simp add: availableMonths_def newYearTx_def mkTx_def)
  have d: "map_option (map (\<lambda>e. nameD (fst e))) (monthlyData (- 300) [newYearTx]) = Some [''2023-12'']"
    by (simp add: monthlyData_def k trendStep_def Let_def del: showNat.simps)
  show ?thesis
    using k h a d by (simp add: newYearTx_def mkTx_def)
qed

subsection \<open>C4: the best source among equal minimum prices\<close>

text \<open>
  What \<open>bestStore\<close> is on every input: the minimum price is the price of some record of the
  name and a lower bound of all of them, and \<open>bestStore\<close> is the store of the first record, in
  the order in which the transactions and their items are listed, whose price is the minimum.
\<close>

lemma bestStore_first_at_min:
  assumes "s \<in> set (itemStats time ts)"
  shows "\<exists>p. find (\<lambda>p. priceP p = minPrice s) (recordsNamed (nameS s) ts) = Some p
           \<and> bestStore s = store p
           \<and> (\<forall>r \<in> set (history s). minPrice s \<le> priceP r)"
proof -
  from assms obtain e where e: "e \<in> set (statsMapOf ts)" "snd e \<noteq> []" "s = itemStat time e"
    by (auto simp: itemStats_member)
  have ps: "snd e = recordsNamed (fst e) ts"
    using e(1) statsMapOf_entry[of "fst e" "snd e" ts] by simp
  have mn: "minPrice s = mathMin (map priceP (snd e))"
    by (simp add: e(3) itemStat_def Let_def)
  have "mathMin (map priceP (snd e)) \<in> set (map priceP (snd e))"
    using e(2) by (intro mathMin_in) simp
  then obtain q where q: "q \<in> set (snd e)" "priceP q = minPrice s"
    using mn by auto
  then obtain p where p: "find (\<lambda>p. priceP p = minPrice s) (snd e) = Some p"
    by (cases "find (\<lambda>p. priceP p = minPrice s) (snd e)") (auto simp: find_None_iff)
  then have "p \<in> set (snd e)"
    by (auto simp: find_Some_iff)
  then have "p \<in> set (recordsNamed (fst e) ts)"
    using ps by simp
  then have ne: "store p \<noteq> []"
    by (rule recordsNamed_store)
  have "bestStore (itemStat time e) =
      (case find (\<lambda>p. priceP p = mathMin (map priceP (snd e))) (snd e) of
         None \<Rightarrow> ''Unknown'' | Some p \<Rightarrow> if store p = [] then ''Unknown'' else store p)"
    by (simp add: itemStat_def Let_def)
  then have b: "bestStore s = store p"
    using p ne unfolding e(3)[symmetric] mn[symmetric] by simp
  have h: "minPrice s \<le> priceP r" if "r \<in> set (history s)" for r
  proof -
    have "r \<in> set (snd e)"
      using that by (simp add: e(3) itemStat_fields)
    then have "priceP r \<in> set (map priceP (snd e))"
      by simp
    then show ?thesis
      unfolding mn by (rule mathMin_le)
  qed
  have n: "nameS s = fst e"
    by (simp add: e(3) itemStat_fields)
  show ?thesis
    using p b h unfolding n ps[symmetric] by blast
qed

text \<open>
  Claim C4 at a list in which the January purchase stands before the February purchase (the
  January receipt was entered last): both records have the minimum price 3, the history
  puts the February record first as the more recent one, and \<open>bestStore\<close> is the store of the
  January record, the first that \<open>find\<close> meets in insertion order.
\<close>

theorem bestStore_tie_takes_first_inserted:
  "map bestStore (itemStats timeOf [priceTieJan, priceTieFeb]) = [''Aldi'']
   \<and> map minPrice (itemStats timeOf [priceTieJan, priceTieFeb]) = [3]
   \<and> map history (itemStats timeOf [priceTieJan, priceTieFeb]) =
       [[\<lparr>priceP = 3, store = ''Coles'', dateP = ''2024-02-01''\<rparr>,
         \<lparr>priceP = 3, store = ''Aldi'', dateP = ''2024-01-01''\<rparr>]]
   \<and> timeOf ''2024-01-01'' = 1704067200000 \<and> timeOf ''2024-02-01'' = 1706745600000"
  by (simp add: priceWatch_defs date_defs priceTieJan_def priceTieFeb_def)

subsection \<open>C5: the entries of the budget status\<close>



subsection \<open>C6: the order of the budget status\<close>



subsection \<open>C7: monthly history against the totals\<close>

text \<open>
  Claim C7, as amended. For transactions whose amounts are not negative (and at most \<open>2^53\<close>,
  far below the overflow range), the income fields of all entries of \<open>monthlyHistory\<close> add up
  to \<open>totalIncomeAUD\<close>, and the expense fields to \<open>totalExpenseAUD\<close>, up to the rounding of the
  additions: at most two roundings for each transaction, so each is within the factor
  \<open>((1 + u) / (1 - u)) ^ (2 * n)\<close> of the other for \<open>n\<close> transactions and \<open>u = 2^-53\<close>.
\<close>

theorem monthlyHistory_agrees_with_totals:
  assumes "\<forall>t \<in> set transactions. 0 \<le> amountAUD t \<and> amountAUD t \<le> 2 ^ 53"
  shows "approx (2 * length transactions)
           (sum_list (map incomeH (monthlyHistory transactions))) (totalIncomeAUD transactions)
    \<and> approx (2 * length transactions)
           (sum_list (map expenseH (monthlyHistory transactions))) (totalExpenseAUD transactions)"
proof -
  let ?n = "length transactions"
  have nn: "\<forall>t \<in> set transactions. 0 \<le> amountAUD t" using assms by simp
  have h: "approx (0 + ?n) (0 + sum_list (map incomeShare transactions))
           (sum_list (map (\<lambda>e. fst (snd e)) (foldl historyStep [] transactions)))
       \<and> approx (0 + ?n) (0 + sum_list (map expenseShare transactions))
           (sum_list (map (\<lambda>e. snd (snd e)) (foldl historyStep [] transactions)))"
    by (rule historyStep_fold_approx[OF nn]) (simp_all add: approx_zero_iff)
  then have hi: "approx ?n (sum_list (map incomeH (monthlyHistory transactions)))
      (sum_list (map incomeShare transactions))"
    and he: "approx ?n (sum_list (map expenseH (monthlyHistory transactions)))
      (sum_list (map expenseShare transactions))"
    by (simp_all add: monthlyHistory_sums approx_sym)
  have "approx (?n + ?n) (sum_list (map incomeH (monthlyHistory transactions)))
      (totalIncomeAUD transactions)"
    using hi totalIncomeAUD_approx[OF nn, THEN conjunct1] by (rule approx_trans)
  moreover have "approx (?n + ?n) (sum_list (map expenseH (monthlyHistory transactions)))
      (totalExpenseAUD transactions)"
    using he totalExpenseAUD_approx[OF nn, THEN conjunct1] by (rule approx_trans)
  ultimately show ?thesis by (simp add: mult_2)
qed


text \<open>The theorem at incomes of 0.1, 0.2 and 0.4.\<close>

theorem monthlyHistory_agrees_with_totals_witness:
  "list_all (\<lambda>t. 0 \<le> amountAUD t \<and> amountAUD t \<le> 2 ^ 53) tenths
   \<and> approx 6 (sum_list (map incomeH (monthlyHistory tenths))) (totalIncomeAUD tenths)"
proof -
  have h: "list_all (\<lambda>t. 0 \<le> amountAUD t \<and> amountAUD t \<le> 2 ^ 53) tenths"
    by code_simp
  then have "\<forall>t \<in> set tenths. 0 \<le> amountAUD t \<and> amountAUD t \<le> 2 ^ 53"
    by (simp add: list_all_iff)
  then have "approx (2 * length tenths)
      (sum_list (map incomeH (monthlyHistory tenths))) (totalIncomeAUD tenths)"
    using monthlyHistory_agrees_with_totals[of tenths] by simp
  moreover have "length tenths = 3" by (simp add: tenths_def)
  ultimately show ?thesis using h by simp
qed

text \<open>
  C7 as stated fails: with incomes of 0.1 and 0.4 in January and 0.2 in February the total is
  \<open>0.7000000000000001\<close>, while the monthly incomes \<open>0.2\<close> and \<open>0.5\<close> sum to \<open>0.7\<close>, whether
  they are added exactly or in doubles.
\<close>

theorem monthlyHistory_agrees_with_totals_counterexample:
  "totalIncomeAUD tenths = 6305039478318695 / 2 ^ 53
   \<and> map incomeH (monthlyHistory tenths) = [3602879701896397 / 2 ^ 54, 1 / 2]
   \<and> sum_list (map incomeH (monthlyHistory tenths)) = 12610078956637389 / 2 ^ 54
   \<and> foldl fadd 0 (map incomeH (monthlyHistory tenths)) = 6305039478318694 / 2 ^ 53
   \<and> sum_list (map incomeH (monthlyHistory tenths)) \<noteq> totalIncomeAUD tenths"
  by code_simp

text \<open>Scenario C of the specification.\<close>

lemma scenarioC:
  "monthlyHistory [mkTx income 1000 ''Salary'' ''2024-01-10'' [] None,
                   mkTx income 500 ''Salary'' ''2024-02-01'' [] None] =
     [\<lparr>month = ''2024-02'', incomeH = 500, expenseH = 0, netH = 500\<rparr>,
      \<lparr>month = ''2024-01'', incomeH = 1000, expenseH = 0, netH = 1000\<rparr>]"
  by code_simp

subsection \<open>C8: what the results depend on\<close>




subsection \<open>C9: labels outside the enumerations\<close>

text \<open>
  Claim C9, as amended. For every label \<open>c\<close> that is not the name of a property of
  \<open>Object.prototype\<close>, inside the enumerations or outside: \<open>chartData\<close> has an entry under \<open>c\<close>
  exactly when some expense transaction carries that label, one entry per label, whose value
  is the number that the amounts of the expense transactions with that label add up to, in
  their order. Whenever \<open>categoryData\<close> has a defined order it holds the same entries, and it
  has one, descending by value, when no expense label names a property of
  \<open>Object.prototype\<close>. So no such label is rejected and none is renamed. Only the colour of a
  cell falls back: a label without an entry in \<open>CATEGORY_COLORS\<close> is drawn in \<open>#94a3b8\<close>.
\<close>

theorem unknown_category_kept:
  assumes "c \<notin> set objectPrototypeKeys"
  shows "((c, v) \<in> set (chartData transactions) \<longleftrightarrow>
      c \<in> category ` set (expenseTransactions transactions)
      \<and> v = Amount (categorySpent transactions c))
   \<and> distinct (map fst (chartData transactions))
   \<and> (\<forall>out. categoryData transactions = Some out \<longrightarrow> mset out = mset (chartData transactions))
   \<and> ((\<forall>t \<in> set (expenseTransactions transactions). category t \<notin> set objectPrototypeKeys) \<longrightarrow>
        (\<exists>out. categoryData transactions = Some out
           \<and> sorted_wrt (\<lambda>a b. amountOf (snd b) \<le> amountOf (snd a)) out))
   \<and> (map_of CATEGORY_COLORS c = None \<longrightarrow> cellFill c = Colour ''#94a3b8'')"
proof -
  have a: "(c, v) \<in> set (chartData transactions) \<longleftrightarrow>
      c \<in> category ` set (expenseTransactions transactions)
      \<and> v = Amount (categorySpent transactions c)"
    by (rule chartData_entry[OF assms])
  have d: "distinct (map fst (chartData transactions))" by (rule chartData_distinct)
  have m: "\<forall>out. categoryData transactions = Some out \<longrightarrow> mset out = mset (chartData transactions)"
    by (simp add: categoryData_chartData sortByValue_mset)
  have s: "\<exists>out. categoryData transactions = Some out
           \<and> sorted_wrt (\<lambda>a b. amountOf (snd b) \<le> amountOf (snd a)) out"
    if h: "\<forall>t \<in> set (expenseTransactions transactions). category t \<notin> set objectPrototypeKeys"
  proof -
    have "\<forall>e \<in> set (foldl categoryStep [] (expenseTransactions transactions)). isAmount (snd e)"
      by (rule categoryStep_fold_amounts[OF h]) simp
    then have "\<forall>e \<in> set (chartData transactions). isAmount (snd e)"
      by (simp add: chartData_def set_objectEntries)
    then have "categoryData transactions =
        Some (sortDesc (\<lambda>e. amountOf (snd e)) (chartData transactions))"
      unfolding categoryData_chartData by (rule sortByValue_amounts)
    then show ?thesis by (simp add: sorted_sortDesc)
  qed
  have f: "map_of CATEGORY_COLORS c = None \<longrightarrow> cellFill c = Colour ''#94a3b8''"
    using cellFill_unknown[OF assms] by simp
  from a d m s f show ?thesis by blast
qed

text \<open>
  The theorem at a transaction labelled \<open>Legacy\<close>, a label of neither enumeration, beside one
  labelled \<open>7\<close>, which \<open>Object.entries\<close> lists first.
\<close>

theorem unknown_category_kept_witness:
  "''Legacy'' \<notin> set objectPrototypeKeys
   \<and> list_all (\<lambda>t. category t \<notin> set objectPrototypeKeys) (expenseTransactions [legacyTx, sevenTx])
   \<and> map_of CATEGORY_COLORS ''Legacy'' = None
   \<and> chartData [legacyTx, sevenTx] = [(''7'', Amount 2), (''Legacy'', Amount 5)]
   \<and> (''Legacy'', Amount 5) \<in> set (chartData [legacyTx, sevenTx])
   \<and> categoryData [legacyTx, sevenTx] = Some [(''Legacy'', Amount 5), (''7'', Amount 2)]
   \<and> cellFill ''Legacy'' = Colour ''#94a3b8''"
proof -
  have h: "''Legacy'' \<notin> set objectPrototypeKeys"
    "list_all (\<lambda>t. category t \<notin> set objectPrototypeKeys) (expenseTransactions [legacyTx, sevenTx])"
    "map_of CATEGORY_COLORS ''Legacy'' = None"
    "chartData [legacyTx, sevenTx] = [(''7'', Amount 2), (''Legacy'', Amount 5)]"
    "categoryData [legacyTx, sevenTx] = Some [(''Legacy'', Amount 5), (''7'', Amount 2)]"
    "''Legacy'' \<in> category ` set (expenseTransactions [legacyTx, sevenTx])"
    "categorySpent [legacyTx, sevenTx] ''Legacy'' = 5"
    by code_simp+
  note t = unknown_category_kept[OF h(1), of "Amount 5" "[legacyTx, sevenTx]"]
  from t h(3) have "cellFill ''Legacy'' = Colour ''#94a3b8''" by simp
  moreover from t h(6,7) have "(''Legacy'', Amount 5) \<in> set (chartData [legacyTx, sevenTx])"
    by simp
  ultimately show ?thesis using h by simp
qed

text \<open>
  C9 as stated fails: the amount of a transaction labelled \<open>Legacy\<close> appears under \<open>Legacy\<close>
  itself, and the charts have no entry under the label of \<open>OTHER\<close> or \<open>OTHER_INCOME\<close>. A label
  that names a property of \<open>Object.prototype\<close> fares worse: under \<open>__proto__\<close> the amount is in
  no entry at all, and under \<open>constructor\<close> the entry holds a string and the cell no colour.
\<close>

theorem unknown_category_kept_counterexample:
  "''Legacy'' \<notin> set (map snd Category) \<and> ''Legacy'' \<notin> set (map snd IncomeCategory)
   \<and> chartData [legacyTx] = [(''Legacy'', Amount 5)]
   \<and> categoryData [legacyTx] = Some [(''Legacy'', Amount 5)]
   \<and> enumValue Category ''OTHER'' \<noteq> ''Legacy''
   \<and> enumValue IncomeCategory ''OTHER_INCOME'' \<noteq> ''Legacy''
   \<and> ''__proto__'' \<notin> set (map snd Category) \<and> ''__proto__'' \<notin> set (map snd IncomeCategory)
   \<and> chartData [protoTx] = []
   \<and> ''constructor'' \<notin> set (map snd Category) \<and> ''constructor'' \<notin> set (map snd IncomeCategory)
   \<and> chartData [constructorTx, constructorTx] = [(''constructor'', Text ''constructor'' [5, 5])]
   \<and> cellFill ''constructor'' = NotAColour ''constructor''"
  by code_simp

subsection \<open>C10: the source of a price record\<close>

text \<open>
  Claim C10. The price records of an item statistic are, up to the order of the history, the
  records of all items of that (trimmed) name in all transactions, each with the price of the
  item, the date of the transaction and, as its source, the note of the transaction, or
  \<open>Unknown\<close> when the note is the empty string; and every item of every transaction has its
  record in the statistic of its name.
\<close>

theorem price_record_source:
  "(\<forall>s \<in> set (itemStats time transactions).
      mset (history s) = mset (recordsNamed (nameS s) transactions))
   \<and> (\<forall>t \<in> set transactions. \<forall>i \<in> set (itemsOf t).
        \<exists>s \<in> set (itemStats time transactions).
          nameS s = trim (name i) \<and> recordOf t i \<in> set (history s)
          \<and> priceP (recordOf t i) = price i \<and> dateP (recordOf t i) = date t
          \<and> store (recordOf t i) = (if noteT t = [] then ''Unknown'' else noteT t))"
proof (intro conjI ballI)
  fix s assume "s \<in> set (itemStats time transactions)"
  then obtain e where e: "e \<in> set (statsMapOf transactions)" "s = itemStat time e"
    by (auto simp: itemStats_member)
  then have "snd e = recordsNamed (fst e) transactions"
    using statsMapOf_entry[of "fst e" "snd e" transactions] by simp
  then show "mset (history s) = mset (recordsNamed (nameS s) transactions)"
    using e by (simp add: itemStat_fields)
next
  fix t i assume ti: "t \<in> set transactions" "i \<in> set (itemsOf t)"
  let ?e = "(trim (name i), recordsNamed (trim (name i)) transactions)"
  have m: "recordOf t i \<in> set (recordsNamed (trim (name i)) transactions)"
    using ti by (rule recordsNamed_member)
  then have ne: "snd ?e \<noteq> []" by auto
  have "?e \<in> set (statsMapOf transactions)"
    using ti by (rule statsMapOf_has_entry)
  then have "itemStat time ?e \<in> set (itemStats time transactions)"
    unfolding itemStats_member using ne by (intro bexI[of _ ?e]) simp_all
  moreover have "nameS (itemStat time ?e) = trim (name i)"
    "recordOf t i \<in> set (history (itemStat time ?e))"
    using m by (simp_all add: itemStat_fields)
  ultimately show "\<exists>s \<in> set (itemStats time transactions).
          nameS s = trim (name i) \<and> recordOf t i \<in> set (history s)
          \<and> priceP (recordOf t i) = price i \<and> dateP (recordOf t i) = date t
          \<and> store (recordOf t i) = (if noteT t = [] then ''Unknown'' else noteT t)"
    by (auto simp: recordOf_def)
qed

text \<open>The theorem at a receipt without a note.\<close>

theorem price_record_source_witness:
  "unnamedShop \<in> set [unnamedShop] \<and> mkItem ''Milk'' 4 \<in> set (itemsOf unnamedShop)
   \<and> noteT unnamedShop = []
   \<and> (\<exists>s \<in> set (itemStats timeOf [unnamedShop]).
         nameS s = ''Milk''
         \<and> \<lparr>priceP = 4, store = ''Unknown'', dateP = ''2024-03-02''\<rparr> \<in> set (history s))"
proof -
  have h: "unnamedShop \<in> set [unnamedShop]" "mkItem ''Milk'' 4 \<in> set (itemsOf unnamedShop)"
    "noteT unnamedShop = []"
    by (simp_all add: unnamedShop_def itemsOf_def mkTx_def)
  have r: "recordOf unnamedShop (mkItem ''Milk'' 4) =
      \<lparr>priceP = 4, store = ''Unknown'', dateP = ''2024-03-02''\<rparr>"
    "trim (name (mkItem ''Milk'' 4)) = ''Milk''"
    by (simp_all add: recordOf_def unnamedShop_def mkTx_def mkItem_def trim_Milk)
  from price_record_source[of timeOf "[unnamedShop]"] h(1,2)
  have "\<exists>s \<in> set (itemStats timeOf [unnamedShop]).
      nameS s = trim (name (mkItem ''Milk'' 4))
      \<and> recordOf unnamedShop (mkItem ''Milk'' 4) \<in> set (history s)"
    by blast
  then show ?thesis
    using h by (simp add: r)
qed

text \<open>Scenario D of the specification, with the later purchase first in the list.\<close>

lemma scenarioD:
  "itemStats timeOf
     [mkTx expense (7 / 2) ''Groceries'' ''2024-02-01'' ''Coles'' (Some [mkItem ''Milk'' (7 / 2)]),
      mkTx expense 4 ''Groceries'' ''2024-01-01'' ''Woolworths'' (Some [mkItem ''Milk'' 4])] =
     [\<lparr>nameS = ''Milk'', minPrice = 7 / 2, maxPrice = 4, avgPrice = 15 / 4, bestStore = ''Coles'',
       lastPrice = 7 / 2,
       history = [\<lparr>priceP = 7 / 2, store = ''Coles'', dateP = ''2024-02-01''\<rparr>,
                  \<lparr>priceP = 4, store = ''Woolworths'', dateP = ''2024-01-01''\<rparr>]\<rparr>]"
  by (simp add: priceWatch_defs date_defs)

end
